theory Spec2Isabelle
  imports Main "HOL-Library.Sublist"
begin

section \<open>The console\<close>

text \<open>
  The program talks to the user through \<open>std::cin\<close> and \<open>std::cout\<close> and clears the
  terminal with \<open>std::system("clear")\<close>. Output is a flat log of terminal events:
  a printed byte, or a cleared screen.
\<close>

datatype tty = Clear | Ch char

abbreviation newline :: char where
  "newline \<equiv> CHR 0x0A"

text \<open>\<open>std::endl\<close> writes a line feed (the flush has no effect on what is shown).\<close>

abbreviation endl :: string where
  "endl \<equiv> [newline]"

text \<open>
  \<open>std::cin\<close>: the bytes not yet read, and the two state flags the program can observe
  (\<open>badbit\<close> is never set: the model has no device errors).
\<close>

record istream =
  buf :: string
  eofbit :: bool
  failbit :: bool

definition good :: "istream \<Rightarrow> bool" where
  "good inp \<longleftrightarrow> \<not> eofbit inp \<and> \<not> failbit inp"

text \<open>\<open>cin.clear()\<close> resets the state flags.\<close>

definition istream_clear :: "istream \<Rightarrow> istream" where
  "istream_clear inp = inp\<lparr>eofbit := False, failbit := False\<rparr>"

text \<open>
  \<open>cin.ignore()\<close> (one character, no delimiter). An unformatted input function: its
  sentry sets \<open>failbit\<close> on a stream that is not good; otherwise one character is
  discarded, and end of input sets \<open>eofbit\<close>.
\<close>

definition istream_ignore :: "istream \<Rightarrow> istream" where
  "istream_ignore inp =
     (if \<not> good inp then inp\<lparr>failbit := True\<rparr>
      else case buf inp of
             [] \<Rightarrow> inp\<lparr>eofbit := True\<rparr>
           | c # cs \<Rightarrow> inp\<lparr>buf := cs\<rparr>)"

text \<open>
  \<open>cin.get()\<close>, whose result the program discards: one character is consumed; at end
  of input both \<open>eofbit\<close> and \<open>failbit\<close> are set.
\<close>

definition istream_get :: "istream \<Rightarrow> istream" where
  "istream_get inp =
     (if \<not> good inp then inp\<lparr>failbit := True\<rparr>
      else case buf inp of
             [] \<Rightarrow> inp\<lparr>eofbit := True, failbit := True\<rparr>
           | c # cs \<Rightarrow> inp\<lparr>buf := cs\<rparr>)"

text \<open>
  \<open>std::getline(cin, str)\<close>. On a stream that is not good the sentry sets \<open>failbit\<close>
  and \<open>str\<close> keeps its value. Otherwise \<open>str\<close> is erased and characters are moved
  into it up to a line feed, which is consumed and not stored. Reaching the end of the
  input sets \<open>eofbit\<close>, and \<open>failbit\<close> as well when nothing at all was extracted.
\<close>

definition istream_getline :: "istream \<Rightarrow> string \<Rightarrow> string \<times> istream" where
  "istream_getline inp str =
     (if \<not> good inp then (str, inp\<lparr>failbit := True\<rparr>)
      else let line = takeWhile (\<lambda>c. c \<noteq> newline) (buf inp);
               rest = dropWhile (\<lambda>c. c \<noteq> newline) (buf inp)
           in case rest of
                [] \<Rightarrow> (line, \<lparr>buf = [], eofbit = True, failbit = (line = [])\<rparr>)
              | c # cs \<Rightarrow> (line, inp\<lparr>buf := cs\<rparr>))"

text \<open>
  \<open>cin >> choice\<close> for an \<open>int\<close>, in the default "C" locale with the default \<open>dec\<close>
  base. The sentry fails on a stream that is not good; otherwise white space is skipped
  (running out of input there sets \<open>eofbit\<close> and \<open>failbit\<close>, and the variable keeps its
  value). Then an optional sign and the longest run of decimal digits are consumed.
  No digit: \<open>failbit\<close>, and 0 is stored. A value outside the 32-bit \<open>int\<close>: \<open>failbit\<close>,
  and the nearest bound is stored. Input that ends right after the digits sets \<open>eofbit\<close>.
\<close>

definition isspace :: "char \<Rightarrow> bool" where
  "isspace c \<longleftrightarrow> c \<in> {CHR '' '', CHR 0x09, CHR 0x0A, CHR 0x0B, CHR 0x0C, CHR 0x0D}"

definition isdigit :: "char \<Rightarrow> bool" where
  "isdigit c \<longleftrightarrow> (48::nat) \<le> of_char c \<and> of_char c \<le> (57::nat)"

definition digits_value :: "string \<Rightarrow> nat" where
  "digits_value ds = foldl (\<lambda>a c. 10 * a + (of_char c - 48)) 0 ds"

abbreviation INT_MAX :: int where
  "INT_MAX \<equiv> 2147483647"

abbreviation INT_MIN :: int where
  "INT_MIN \<equiv> - 2147483648"

definition istream_extract_int :: "istream \<Rightarrow> int \<Rightarrow> int \<times> istream" where
  "istream_extract_int inp n =
     (if \<not> good inp then (n, inp\<lparr>failbit := True\<rparr>)
      else let b1 = dropWhile isspace (buf inp) in
        if b1 = [] then (n, \<lparr>buf = [], eofbit = True, failbit = True\<rparr>)
        else let negative = (hd b1 = CHR ''-'');
                 b2 = (if hd b1 = CHR ''-'' \<or> hd b1 = CHR ''+'' then tl b1 else b1);
                 ds = takeWhile isdigit b2;
                 b3 = dropWhile isdigit b2;
                 v = (if negative then - int (digits_value ds) else int (digits_value ds))
             in if ds = [] then (0, \<lparr>buf = b3, eofbit = (b3 = []), failbit = True\<rparr>)
                else if v < INT_MIN then (INT_MIN, \<lparr>buf = b3, eofbit = (b3 = []), failbit = True\<rparr>)
                else if v > INT_MAX then (INT_MAX, \<lparr>buf = b3, eofbit = (b3 = []), failbit = True\<rparr>)
                else (v, \<lparr>buf = b3, eofbit = (b3 = []), failbit = False\<rparr>))"

text \<open>\<open>cout << n\<close> for an unsigned integer: its decimal digits.\<close>

fun string_of_nat :: "nat \<Rightarrow> string" where
  "string_of_nat n =
     (if n < 10 then [char_of (48 + n)]
      else string_of_nat (n div 10) @ [char_of (48 + n mod 10)])"

declare string_of_nat.simps [simp del]

section \<open>Regular expressions\<close>

text \<open>
  The fragment of the ECMAScript grammar of \<open>std::regex\<close> that the program's patterns are
  written in: a bracket expression of characters and ranges, concatenation, \<open>+\<close>,
  \<open>{n}\<close>, and the anchors \<open>^\<close> and \<open>$\<close> (not multiline: start and end of the input).
\<close>

datatype pattern =
    Bracket "(char \<times> char) list"
  | Seq pattern pattern
  | Plus pattern
  | Count pattern nat
  | Bol
  | Eol

definition in_bracket :: "char \<Rightarrow> (char \<times> char) list \<Rightarrow> bool" where
  "in_bracket c rs \<longleftrightarrow>
     list_ex (\<lambda>(lo, hi). (of_char lo :: nat) \<le> of_char c \<and> (of_char c :: nat) \<le> of_char hi) rs"

text \<open>
  A backtracking matcher. A matcher state is the input still to be read and whether the
  position is the start of the input; matching a pattern at a state gives every state it
  can end in.
\<close>

type_synonym mstate = "bool \<times> string"

text \<open>
  One or more repetitions: after each repetition the matcher may stop, or go on provided
  the repetition consumed input (an empty repetition is never iterated). \<open>k\<close> bounds the
  number of further repetitions; the length of the input is enough.
\<close>

fun plus_iter :: "(mstate \<Rightarrow> mstate list) \<Rightarrow> nat \<Rightarrow> mstate \<Rightarrow> mstate list" where
  "plus_iter m 0 st = m st"
| "plus_iter m (Suc k) st =
     concat (map (\<lambda>st'. st' # (if length (snd st') < length (snd st) then plus_iter m k st' else []))
                 (m st))"

text \<open>Exactly \<open>n\<close> repetitions, one after the other.\<close>

fun count_iter :: "(mstate \<Rightarrow> mstate list) \<Rightarrow> nat \<Rightarrow> mstate \<Rightarrow> mstate list" where
  "count_iter m 0 st = [st]"
| "count_iter m (Suc n) st = concat (map (count_iter m n) (m st))"

primrec pmatch :: "pattern \<Rightarrow> mstate \<Rightarrow> mstate list" where
  "pmatch (Bracket rs) st =
     (case snd st of
        [] \<Rightarrow> []
      | c # cs \<Rightarrow> if in_bracket c rs then [(False, cs)] else [])"
| "pmatch (Seq p q) st = concat (map (pmatch q) (pmatch p st))"
| "pmatch (Plus p) st = plus_iter (pmatch p) (length (snd st)) st"
| "pmatch (Count p n) st = count_iter (pmatch p) n st"
| "pmatch Bol st = (if fst st then [st] else [])"
| "pmatch Eol st = (if snd st = [] then [st] else [])"

text \<open>
  A compiled \<open>std::regex\<close> object is used by the program only through
  \<open>std::regex_match\<close>, so it is represented by the strings it matches in full.
\<close>

type_synonym regex = "string \<Rightarrow> bool"

definition regex :: "pattern \<Rightarrow> regex" where
  "regex p = (\<lambda>s. list_ex (\<lambda>st. snd st = []) (pmatch p (True, s)))"

definition regex_match :: "string \<Rightarrow> regex \<Rightarrow> bool" where
  "regex_match s re = re s"

text \<open>The two patterns of the program: \<open>^[a-zA-Z0-9 ]+$\<close> and \<open>^[0-9]{4}$\<close>.\<close>

definition pattern_text :: pattern where
  "pattern_text =
     Seq Bol (Seq (Plus (Bracket [(CHR ''a'', CHR ''z''), (CHR ''A'', CHR ''Z''),
                                  (CHR ''0'', CHR ''9''), (CHR '' '', CHR '' '')])) Eol)"

definition pattern_year :: pattern where
  "pattern_year = Seq Bol (Seq (Count (Bracket [(CHR ''0'', CHR ''9'')]) 4) Eol)"

section \<open>The program state\<close>

text \<open>\<open>class Book\<close>: three strings, set by the constructor and read by the getters.\<close>

datatype Book = Book (getTitle: string) (getAuthor: string) (getYear: string)

text \<open>
  What a callback can reach: the standard streams, and the \<open>books\<close> vector of the
  \<open>Library\<close> object when its closure captured \<open>&library\<close>.
\<close>

record world =
  cin :: istream
  cout :: "tty list"
  books :: "Book list"

text \<open>
  \<open>std::function<void(vector<Book>)>\<close>: the callee owns a parameter object that is
  copy-initialised from the argument. A callback takes the initial value of that
  parameter object and the world, and gives the value the parameter object has when the
  call returns together with the new world; \<open>None\<close> is a call that never returns.
  A callback of the model cannot change the action registry.
\<close>

type_synonym callback = "Book list \<Rightarrow> world \<Rightarrow> (Book list \<times> world) option"

text \<open>
  \<open>class LibraryAction\<close>; its getter \<open>getTitle\<close> is named \<open>getActionTitle\<close> here, since
  \<open>Book\<close> has a getter of the same name.
\<close>

datatype LibraryAction = LibraryAction (getActionTitle: string) (getAction: callback)

text \<open>\<open>class Library\<close>: the two vectors, in the world its methods act on.\<close>

record Library = world +
  actions :: "LibraryAction list"

definition clearScreen :: "'a world_scheme \<Rightarrow> 'a world_scheme" where
  "clearScreen w = w\<lparr>cout := cout w @ [Clear]\<rparr>"

definition print :: "string \<Rightarrow> 'a world_scheme \<Rightarrow> 'a world_scheme" where
  "print s w = w\<lparr>cout := cout w @ map Ch s\<rparr>"

section \<open>The validated input reader\<close>

text \<open>
  The source retries by calling itself, and so does the model; the call stack is not
  bounded here. \<open>input\<close> is a fresh empty string at each call. Once the input has run out,
  \<open>getline\<close> fails at every call and leaves \<open>input\<close> empty, so the source calls itself for
  ever unless the pattern matches the empty string: a run without a result is \<open>None\<close>.
\<close>

partial_function (option) getValidatedString ::
  "string \<Rightarrow> regex \<Rightarrow> world \<Rightarrow> (string \<times> world) option" where
  "getValidatedString prompt re w =
     (let w1 = print prompt w;
          r = istream_getline (cin w1) [];
          input = fst r;
          w2 = w1\<lparr>cin := snd r\<rparr>
      in if regex_match input re then Some (input, w2)
         else getValidatedString prompt re
                (print (''Invalid input. Please try again.'' @ endl) (clearScreen w2)))"

declare getValidatedString.simps [code]

section \<open>The library\<close>

text \<open>The constructor \<open>Library()\<close>: no books and no actions.\<close>

definition Library_new :: "istream \<Rightarrow> tty list \<Rightarrow> Library" where
  "Library_new inp out = \<lparr>cin = inp, cout = out, books = [], actions = []\<rparr>"

definition addAction :: "string \<Rightarrow> callback \<Rightarrow> Library \<Rightarrow> Library" where
  "addAction name action lib = lib\<lparr>actions := actions lib @ [LibraryAction name action]\<rparr>"

text \<open>
  \<open>findBook\<close> returns a pointer to an element of the \<open>books\<close> vector, or \<open>nullptr\<close>:
  the position of that element, or \<open>None\<close>. The method is not \<open>const\<close>, so it also
  returns the object it was called on.
\<close>

fun findBook_from :: "string \<Rightarrow> Book list \<Rightarrow> nat \<Rightarrow> nat option" where
  "findBook_from title [] i = None"
| "findBook_from title (book # rest) i =
     (if getTitle book = title then Some i else findBook_from title rest (Suc i))"

definition findBook :: "string \<Rightarrow> 'a world_scheme \<Rightarrow> nat option \<times> 'a world_scheme" where
  "findBook title lib = (findBook_from title (books lib) 0, lib)"

definition addBook :: "Book \<Rightarrow> 'a world_scheme \<Rightarrow> 'a world_scheme" where
  "addBook book lib = lib\<lparr>books := books lib @ [book]\<rparr>"

subsection \<open>The menu loop\<close>

text \<open>
  \<open>exitAction\<close> is a local of \<open>run\<close>; its closure captures the local flag \<open>running\<close>
  and takes its parameter by reference to const.
\<close>

definition exitAction_title :: string where
  "exitAction_title = ''Exit''"

definition exitAction_action :: "Book list \<Rightarrow> bool \<times> Library \<Rightarrow> Book list \<times> bool \<times> Library" where
  "exitAction_action param st =
     (param, False, print (''Thank you for using the library!'' @ endl) (clearScreen (snd st)))"

definition displayMenu :: "Library \<Rightarrow> Library" where
  "displayMenu lib =
     (let l1 = clearScreen lib;
          l2 = print (''Welcome to the library!'' @ endl @ endl) l1;
          l3 = print (''Please choose an action:'' @ endl) l2;
          maxIndex = length (actions l3);
          l4 = fold (\<lambda>i l. print (string_of_nat (i + 1) @ ''. '' @ getActionTitle (actions l ! i) @ endl) l)
                    [0..<maxIndex] l3;
          l5 = print (string_of_nat (maxIndex + 1) @ ''. '' @ exitAction_title @ endl) l4
      in print endl l5)"

text \<open>
  The inner \<open>while (true)\<close> of \<open>run\<close>, which reads the choice. In
  \<open>choice > actions.size() + 1\<close> the \<open>int\<close> is converted to \<open>size_t\<close>; the test
  \<open>choice < 1\<close> before it has excluded the values that conversion would change.
\<close>

partial_function (option) run_choice :: "int \<Rightarrow> Library \<Rightarrow> (int \<times> Library) option" where
  "run_choice choice lib =
     (let l1 = print ''Enter your choice: '' lib;
          r = istream_extract_int (cin l1) choice;
          l2 = l1\<lparr>cin := snd r\<rparr>
      in if failbit (cin l2) then
           (let l3 = print (''Invalid input. Please try again.'' @ endl) (displayMenu (clearScreen l2))
            in run_choice (fst r) (l3\<lparr>cin := istream_ignore (istream_clear (cin l3))\<rparr>))
         else if fst r < 1 \<or> fst r > int (length (actions l2)) + 1 then
           run_choice (fst r)
             (print (''Invalid input. Please try again.'' @ endl) (displayMenu (clearScreen l2)))
         else Some (fst r, l2\<lparr>cin := istream_ignore (cin l2)\<rparr>))"

declare run_choice.simps [code]

text \<open>What a callback is given of the library, and the library after the call.\<close>

definition world_of :: "Library \<Rightarrow> world" where
  "world_of lib = \<lparr>cin = cin lib, cout = cout lib, books = books lib\<rparr>"

definition with_world :: "world \<Rightarrow> Library \<Rightarrow> Library" where
  "with_world w lib = lib\<lparr>cin := cin w, cout := cout w, books := books w\<rparr>"

text \<open>
  One pass through the body of the outer \<open>while (true)\<close>: it ends in \<open>break\<close> or goes
  round again. The argument of the call is \<open>books\<close>, copied into the callee's parameter
  object; that object is destroyed when the call returns. The read \<open>actions[choice - 1]\<close>
  is in range, since the choice has been validated and is not \<open>actions.size() + 1\<close>.
\<close>

datatype flow = Break | Again

definition run_iteration :: "bool \<Rightarrow> Library \<Rightarrow> (flow \<times> bool \<times> Library) option" where
  "run_iteration running lib =
     (case run_choice 0 (displayMenu (clearScreen lib)) of
        None \<Rightarrow> None
      | Some (choice, l1) \<Rightarrow>
          if choice = int (length (actions l1)) + 1 then
            Some (Break, snd (exitAction_action (books l1) (running, l1)))
          else
            (let l2 = clearScreen l1
             in case getAction (actions l2 ! nat (choice - 1)) (books l2) (world_of l2) of
                  None \<Rightarrow> None
                | Some (param, w) \<Rightarrow> Some (Again, running, with_world w l2)))"

partial_function (option) run_loop :: "bool \<Rightarrow> Library \<Rightarrow> (bool \<times> Library) option" where
  "run_loop running lib =
     (case run_iteration running lib of
        None \<Rightarrow> None
      | Some (Break, st) \<Rightarrow> Some st
      | Some (Again, st) \<Rightarrow> run_loop (fst st) (snd st))"

declare run_loop.simps [code]

definition run :: "Library \<Rightarrow> Library option" where
  "run lib = map_option snd (run_loop True lib)"

section \<open>The program\<close>

definition getBookFromInput :: "world \<Rightarrow> (Book \<times> world) option" where
  "getBookFromInput w =
     (case getValidatedString ''Enter title: '' (regex pattern_text)
             (print (''Enter book details: '' @ endl @ endl) w) of
        None \<Rightarrow> None
      | Some (title, w1) \<Rightarrow>
          (case getValidatedString ''Enter author: '' (regex pattern_text) w1 of
             None \<Rightarrow> None
           | Some (author, w2) \<Rightarrow>
               (case getValidatedString ''Enter year: '' (regex pattern_year) w2 of
                  None \<Rightarrow> None
                | Some (year, w3) \<Rightarrow> Some (Book title author year, w3))))"

text \<open>The table: box-drawing characters in UTF-8, and \<open>left << setw(n)\<close>.\<close>

definition box :: "nat \<Rightarrow> string" where
  "box b = [CHR 0xE2, CHR 0x94, char_of b]"

definition table_rule :: "nat \<Rightarrow> nat \<Rightarrow> nat \<Rightarrow> string" where
  "table_rule l m r =
     box l @ concat (replicate 21 (box 0x80)) @ box m @ concat (replicate 21 (box 0x80)) @ box m
       @ concat (replicate 11 (box 0x80)) @ box r"

definition table_head :: string where
  "table_head =
     table_rule 0x8C 0xAC 0x90 @ endl
     @ box 0x82 @ '' Title               '' @ box 0x82 @ '' Author              '' @ box 0x82
       @ '' Year      '' @ box 0x82 @ endl
     @ table_rule 0x9C 0xBC 0xA4 @ endl"

definition setw_left :: "nat \<Rightarrow> string \<Rightarrow> string" where
  "setw_left n s = s @ replicate (n - length s) CHR '' ''"

definition nameWidth :: nat where
  "nameWidth = 20"

definition authorWidth :: nat where
  "authorWidth = 20"

definition yearWidth :: nat where
  "yearWidth = 10"

definition table_row :: "Book \<Rightarrow> string" where
  "table_row book =
     box 0x82 @ '' '' @ setw_left nameWidth (getTitle book)
     @ box 0x82 @ '' '' @ setw_left authorWidth (getAuthor book)
     @ box 0x82 @ '' '' @ setw_left yearWidth (getYear book) @ box 0x82 @ endl"

definition table_foot :: string where
  "table_foot = table_rule 0x94 0xB4 0x98 @ endl"

text \<open>
  The three actions that \<open>main\<close> registers. The first two capture \<open>&library\<close> and ignore
  the parameter; the third uses the parameter only. All three take it by reference to
  const, so the parameter object is left as it was.
\<close>

definition action_add :: callback where
  "action_add param w =
     (case getBookFromInput w of
        None \<Rightarrow> None
      | Some (book, w1) \<Rightarrow> Some (param, addBook book w1))"

definition action_search :: callback where
  "action_search param w =
     (case getValidatedString ''Enter book title: '' (regex pattern_text) (clearScreen w) of
        None \<Rightarrow> None
      | Some (title, w1) \<Rightarrow>
          (let r = findBook title w1;
               foundBook = fst r;
               w2 = clearScreen (snd r);
               w3 = (case foundBook of
                       Some i \<Rightarrow>
                         print (''Book found.'' @ endl @ endl @ table_head
                                @ table_row (books w2 ! i) @ table_foot) w2
                     | None \<Rightarrow> print (''Book not found.'' @ endl) w2);
               w4 = print (''Press enter to continue...'' @ endl) w3
           in Some (param, w4\<lparr>cin := istream_get (cin w4)\<rparr>)))"

definition action_display :: callback where
  "action_display param w =
     (let w1 = (if param = [] then
                  print (box 0x8C @ concat (replicate 55 (box 0x80)) @ box 0x90 @ endl
                         @ box 0x82 @ ''                  No books to display                  ''
                         @ box 0x82 @ endl
                         @ box 0x94 @ concat (replicate 55 (box 0x80)) @ box 0x98 @ endl) w
                else print (table_head @ concat (map table_row param) @ table_foot) w);
          w2 = print (''Press enter to continue...'' @ endl) w1
      in Some (param, w2\<lparr>cin := istream_get (cin w2)\<rparr>))"

definition main_library :: "istream \<Rightarrow> Library" where
  "main_library inp =
     addAction ''Display books'' action_display
       (addAction ''Search book'' action_search
          (addAction ''Add a book'' action_add (Library_new inp [])))"

definition main :: "istream \<Rightarrow> Library option" where
  "main inp = run (main_library inp)"

text \<open>A world with the given input and books, for concrete runs.\<close>

definition world_with :: "string \<Rightarrow> Book list \<Rightarrow> world" where
  "world_with s bs = \<lparr>cin = \<lparr>buf = s, eofbit = False, failbit = False\<rparr>, cout = [], books = bs\<rparr>"

text \<open>The characters of the bracket expression \<open>[a-zA-Z0-9 ]\<close>, by their codes.\<close>

definition istext :: "char \<Rightarrow> bool" where
  "istext c \<longleftrightarrow> (let n = of_char c :: nat
               in 97 \<le> n \<and> n \<le> 122 \<or> 65 \<le> n \<and> n \<le> 90 \<or> 48 \<le> n \<and> n \<le> 57 \<or> n = 32)"

section \<open>Searching the store\<close>

lemma findBook_from_None:
  "findBook_from title bs i = None \<longleftrightarrow> (\<forall>b \<in> set bs. getTitle b \<noteq> title)"
  by (induction bs arbitrary: i) simp_all

lemma findBook_from_SomeD:
  "findBook_from title bs i = Some k \<Longrightarrow>
     i \<le> k \<and> k - i < length bs \<and> getTitle (bs ! (k - i)) = title
      \<and> (\<forall>j < k - i. getTitle (bs ! j) \<noteq> title)"
proof (induction bs arbitrary: i)
  case Nil
  then show ?case by simp
next
  case (Cons b bs)
  show ?case
  proof (cases "getTitle b = title")
    case True
    with Cons.prems have "k = i" by simp
    then show ?thesis using True by simp
  next
    case False
    with Cons.prems have "findBook_from title bs (Suc i) = Some k" by simp
    from Cons.IH [OF this] have ih: "Suc i \<le> k" "k - Suc i < length bs"
      "getTitle (bs ! (k - Suc i)) = title" "\<forall>j < k - Suc i. getTitle (bs ! j) \<noteq> title"
      by blast+
    from ih(1) have eq: "k - i = Suc (k - Suc i)" by arith
    have nth: "(b # bs) ! (k - i) = bs ! (k - Suc i)"
      by (subst eq) (rule nth_Cons_Suc)
    have a: "getTitle ((b # bs) ! j) \<noteq> title" if "j < k - i" for j
    proof (cases j)
      case 0
      with False show ?thesis by simp
    next
      case (Suc j')
      with that eq have "j' < k - Suc i" by arith
      with ih(4) have "getTitle (bs ! j') \<noteq> title" by blast
      with Suc show ?thesis by simp
    qed
    have b: "i \<le> k" using ih(1) by arith
    have c: "k - i < Suc (length bs)" using ih(2) eq by arith
    have d: "getTitle ((b # bs) ! (k - i)) = title" using ih(3) by (simp only: nth)
    show ?thesis
    proof (intro conjI allI impI)
      show "i \<le> k" by (rule b)
      show "k - i < length (b # bs)" using c by (simp only: length_Cons)
      show "getTitle ((b # bs) ! (k - i)) = title" by (rule d)
      show "getTitle ((b # bs) ! j) \<noteq> title" if "j < k - i" for j using that by (rule a)
    qed
  qed
qed

lemma findBook_from_SomeI:
  "j < length bs \<Longrightarrow> getTitle (bs ! j) = title \<Longrightarrow> \<forall>m < j. getTitle (bs ! m) \<noteq> title
    \<Longrightarrow> findBook_from title bs i = Some (i + j)"
proof (induction bs arbitrary: i j)
  case Nil
  then show ?case by simp
next
  case (Cons b bs)
  show ?case
  proof (cases j)
    case 0
    with Cons.prems(2) show ?thesis by simp
  next
    case (Suc j')
    from Cons.prems(3) Suc have "getTitle ((b # bs) ! 0) \<noteq> title" by blast
    then have nb: "getTitle b \<noteq> title" by simp
    have 1: "j' < length bs" using Cons.prems(1) Suc by simp
    have 2: "getTitle (bs ! j') = title" using Cons.prems(2) Suc by simp
    have 3: "\<forall>m < j'. getTitle (bs ! m) \<noteq> title"
    proof (intro allI impI)
      fix m assume "m < j'"
      then have "Suc m < j" using Suc by simp
      with Cons.prems(3) have "getTitle ((b # bs) ! Suc m) \<noteq> title" by blast
      then show "getTitle (bs ! m) \<noteq> title" by simp
    qed
    have "findBook_from title bs (Suc i) = Some (Suc i + j')"
      by (rule Cons.IH [OF 1 2 3])
    then show ?thesis using nb Suc by simp
  qed
qed

lemma findBook_from_titles:
  "map getTitle bs = map getTitle bs' \<Longrightarrow> findBook_from title bs i = findBook_from title bs' i"
proof (induction bs arbitrary: bs' i)
  case Nil
  then show ?case by simp
next
  case (Cons b bs)
  from Cons.prems obtain c cs where bs': "bs' = c # cs" by (cases bs') simp_all
  with Cons.prems have "getTitle b = getTitle c" "map getTitle bs = map getTitle cs" by simp_all
  with Cons.IH [of cs "Suc i"] bs' show ?case by simp
qed

text \<open>
  Claim C1. \<open>findBook\<close> returns the position of the first book, in insertion order,
  whose title is equal to the query, and the null result exactly when no stored title
  is equal to it (so also on an empty library). Only the titles decide: two libraries
  with the same sequence of titles give the same answer, whatever the authors and years.
  Equality of strings is equality byte by byte, so the comparison is case-sensitive.
\<close>

theorem findBook_first_match:
  "(fst (findBook title lib) = None \<longleftrightarrow> (\<forall>b \<in> set (books lib). getTitle b \<noteq> title))
   \<and> (\<forall>i. fst (findBook title lib) = Some i \<longleftrightarrow>
          i < length (books lib) \<and> getTitle (books lib ! i) = title
          \<and> (\<forall>j < i. getTitle (books lib ! j) \<noteq> title))
   \<and> (books lib = [] \<longrightarrow> fst (findBook title lib) = None)
   \<and> (\<forall>lib' :: world. map getTitle (books lib') = map getTitle (books lib)
          \<longrightarrow> fst (findBook title lib') = fst (findBook title lib))"
proof (intro conjI allI impI)
  show "fst (findBook title lib) = None \<longleftrightarrow> (\<forall>b \<in> set (books lib). getTitle b \<noteq> title)"
    by (simp add: findBook_def findBook_from_None)
next
  fix i
  show "fst (findBook title lib) = Some i \<longleftrightarrow>
          i < length (books lib) \<and> getTitle (books lib ! i) = title
          \<and> (\<forall>j < i. getTitle (books lib ! j) \<noteq> title)"
  proof
    assume "fst (findBook title lib) = Some i"
    then have "findBook_from title (books lib) 0 = Some i" by (simp add: findBook_def)
    from findBook_from_SomeD [OF this]
    show "i < length (books lib) \<and> getTitle (books lib ! i) = title
          \<and> (\<forall>j < i. getTitle (books lib ! j) \<noteq> title)" by simp
  next
    assume "i < length (books lib) \<and> getTitle (books lib ! i) = title
          \<and> (\<forall>j < i. getTitle (books lib ! j) \<noteq> title)"
    then have "findBook_from title (books lib) 0 = Some (0 + i)"
      by (intro findBook_from_SomeI) simp_all
    then show "fst (findBook title lib) = Some i" by (simp add: findBook_def)
  qed
next
  assume "books lib = []"
  then show "fst (findBook title lib) = None" by (simp add: findBook_def)
next
  fix lib' :: world
  assume "map getTitle (books lib') = map getTitle (books lib)"
  then have "findBook_from title (books lib') 0 = findBook_from title (books lib) 0"
    by (rule findBook_from_titles)
  then show "fst (findBook title lib') = fst (findBook title lib)"
    by (simp add: findBook_def)
qed

theorem findBook_first_match_witness:
  "fst (findBook ''Dune'' (world_with [] [Book ''Emma'' ''Jane Austen'' ''1815'',
       Book ''Dune'' ''Frank Herbert'' ''1965'', Book ''Dune'' ''Someone Else'' ''2001''])) = Some 1
   \<and> fst (findBook ''dune'' (world_with [] [Book ''Emma'' ''Jane Austen'' ''1815'',
       Book ''Dune'' ''Frank Herbert'' ''1965'', Book ''Dune'' ''Someone Else'' ''2001''])) = None
   \<and> fst (findBook ''Dune'' (world_with [] [])) = None"
proof (intro conjI)
  let ?lib = "world_with [] [Book ''Emma'' ''Jane Austen'' ''1815'',
       Book ''Dune'' ''Frank Herbert'' ''1965'', Book ''Dune'' ''Someone Else'' ''2001'']"
  have "(1::nat) < length (books ?lib) \<and> getTitle (books ?lib ! 1) = ''Dune''
          \<and> (\<forall>j < 1. getTitle (books ?lib ! j) \<noteq> ''Dune'')"
    by (simp add: world_with_def)
  with findBook_first_match [of "''Dune''" ?lib] show "fst (findBook ''Dune'' ?lib) = Some 1"
    by blast
  have "\<forall>b \<in> set (books ?lib). getTitle b \<noteq> ''dune''"
    by (simp add: world_with_def)
  with findBook_first_match [of "''dune''" ?lib] show "fst (findBook ''dune'' ?lib) = None"
    by blast
  have "books (world_with [] []) = []" by (simp add: world_with_def)
  with findBook_first_match [of "''Dune''" "world_with [] []"]
  show "fst (findBook ''Dune'' (world_with [] [])) = None"
    by blast
qed

section \<open>Printing and the menu\<close>

lemma print_fields [simp]:
  "cout (print s w) = cout w @ map Ch s" "cin (print s w) = cin w" "books (print s w) = books w"
  by (simp_all add: print_def)

lemma clearScreen_fields [simp]:
  "cout (clearScreen w) = cout w @ [Clear]" "cin (clearScreen w) = cin w"
  "books (clearScreen w) = books w"
  by (simp_all add: clearScreen_def)

lemma print_actions [simp]: "actions (print s lib) = actions lib"
  by (simp add: print_def)

lemma clearScreen_actions [simp]: "actions (clearScreen lib) = actions lib"
  by (simp add: clearScreen_def)

lemma print_print: "print t (print s w) = print (s @ t) w"
  by (simp add: print_def)

lemma char_of_digits [simp]:
  "char_of (48::nat) = CHR ''0''" "char_of (49::nat) = CHR ''1''" "char_of (50::nat) = CHR ''2''"
  "char_of (51::nat) = CHR ''3''" "char_of (52::nat) = CHR ''4''" "char_of (53::nat) = CHR ''5''"
  "char_of (54::nat) = CHR ''6''" "char_of (55::nat) = CHR ''7''" "char_of (56::nat) = CHR ''8''"
  "char_of (57::nat) = CHR ''9''"
  by (simp_all add: char_of_eq_iff)

lemma main_library_fields [simp]:
  "actions (main_library inp) =
     [LibraryAction ''Add a book'' action_add, LibraryAction ''Search book'' action_search,
      LibraryAction ''Display books'' action_display]"
  "books (main_library inp) = []" "cin (main_library inp) = inp" "cout (main_library inp) = []"
  by (simp_all add: main_library_def addAction_def Library_new_def)

text \<open>A loop that only prints, from labels it reads off the registry, prints their concatenation.\<close>

lemma fold_print:
  "fold (\<lambda>i l. print (f (actions l) i) l) js lib = print (concat (map (f (actions lib)) js)) lib"
proof (induction js arbitrary: lib)
  case Nil
  show ?case by (simp add: print_def)
next
  case (Cons j js)
  show ?case
    by (simp add: Cons.IH print_print)
qed

lemma displayMenu_fold:
  "fold (\<lambda>i l. print (string_of_nat (i + 1) @ ''. '' @ getActionTitle (actions l ! i) @ endl) l) js lib
     = print (concat (map (\<lambda>i. string_of_nat (i + 1) @ ''. '' @ getActionTitle (actions lib ! i) @ endl) js)) lib"
  using fold_print [of "\<lambda>as i. string_of_nat (i + 1) @ ''. '' @ getActionTitle (as ! i) @ endl" js lib] .

lemma displayMenu_eq:
  "displayMenu lib =
     lib\<lparr>cout := cout lib @ [Clear]
         @ map Ch (''Welcome to the library!'' @ endl @ endl
                   @ ''Please choose an action:'' @ endl
                   @ concat (map (\<lambda>i. string_of_nat (i + 1) @ ''. '' @ getActionTitle (actions lib ! i) @ endl)
                                 [0..<length (actions lib)])
                   @ string_of_nat (length (actions lib) + 1) @ ''. Exit'' @ endl
                   @ endl)\<rparr>"
  unfolding displayMenu_def Let_def displayMenu_fold
  by (simp add: print_def clearScreen_def exitAction_title_def)

lemma displayMenu_fields [simp]:
  "actions (displayMenu lib) = actions lib" "books (displayMenu lib) = books lib"
  "cin (displayMenu lib) = cin lib"
  by (simp_all add: displayMenu_eq)

text \<open>
  Claim C8. A menu rendering clears the screen, prints the banner, then the registered
  actions as \<open>i+1. label\<close> in registry order, one per line, then the line \<open>N+1. Exit\<close>
  and an empty line. It changes nothing but the output, so the Exit entry is not stored
  in the registry; for the registry that \<open>main\<close> builds the lines are numbered 1 to 4 and
  the registry holds the three registered labels only.
\<close>

theorem displayMenu_renders:
  "displayMenu lib =
     lib\<lparr>cout := cout lib @ [Clear]
         @ map Ch (''Welcome to the library!'' @ endl @ endl
                   @ ''Please choose an action:'' @ endl
                   @ concat (map (\<lambda>i. string_of_nat (i + 1) @ ''. '' @ getActionTitle (actions lib ! i) @ endl)
                                 [0..<length (actions lib)])
                   @ string_of_nat (length (actions lib) + 1) @ ''. Exit'' @ endl
                   @ endl)\<rparr>
   \<and> actions (displayMenu lib) = actions lib
   \<and> cout (displayMenu (main_library inp)) =
       [Clear] @ map Ch (''Welcome to the library!'' @ endl @ endl
                   @ ''Please choose an action:'' @ endl
                   @ ''1. Add a book'' @ endl
                   @ ''2. Search book'' @ endl
                   @ ''3. Display books'' @ endl
                   @ ''4. Exit'' @ endl
                   @ endl)
   \<and> map getActionTitle (actions (main_library inp)) = [''Add a book'', ''Search book'', ''Display books'']"
proof -
  have "[0..<3] = [0, 1, 2::nat]" by (simp add: upt_rec)
  then have c: "cout (displayMenu (main_library inp)) =
       [Clear] @ map Ch (''Welcome to the library!'' @ endl @ endl
                   @ ''Please choose an action:'' @ endl
                   @ ''1. Add a book'' @ endl
                   @ ''2. Search book'' @ endl
                   @ ''3. Display books'' @ endl
                   @ ''4. Exit'' @ endl
                   @ endl)"
    by (subst displayMenu_eq) (simp add: string_of_nat.simps)
  show ?thesis using displayMenu_eq [of lib] c by simp
qed

section \<open>The store operations\<close>

text \<open>
  Claim C10. \<open>addBook\<close> appends the one book to the book sequence and leaves the
  registry (and the streams) as they were; \<open>addAction\<close> appends the one action to the
  registry and leaves the book sequence (and the streams) as they were; \<open>findBook\<close>
  returns the library unchanged.
\<close>

theorem store_operations_frame:
  "books (addBook b lib) = books lib @ [b] \<and> actions (addBook b lib) = actions lib
   \<and> cin (addBook b lib) = cin lib \<and> cout (addBook b lib) = cout lib
   \<and> actions (addAction name f lib) = actions lib @ [LibraryAction name f]
   \<and> books (addAction name f lib) = books lib
   \<and> cin (addAction name f lib) = cin lib \<and> cout (addAction name f lib) = cout lib
   \<and> snd (findBook title lib) = lib"
  by (simp add: addBook_def addAction_def findBook_def)

section \<open>The two patterns\<close>

lemma pmatch_Bracket_Nil [simp]: "pmatch (Bracket rs) (b, []) = []"
  by simp

lemma pmatch_Bracket_Cons [simp]:
  "pmatch (Bracket rs) (b, c # cs) = (if in_bracket c rs then [(False, cs)] else [])"
  by simp

lemma count_Bracket:
  "count_iter (pmatch (Bracket rs)) n (b, s) =
     (if n = 0 then [(b, s)]
      else if n \<le> length s \<and> (\<forall>c \<in> set (take n s). in_bracket c rs) then [(False, drop n s)]
      else [])"
proof (induction n arbitrary: b s)
  case 0
  show ?case by simp
next
  case (Suc n)
  show ?case
  proof (cases s)
    case Nil
    then show ?thesis by simp
  next
    case (Cons c cs)
    show ?thesis
    proof (cases "in_bracket c rs")
      case True
      then show ?thesis using Cons Suc.IH [of False cs]
        by (cases n) simp_all
    next
      case False
      then show ?thesis using Cons by simp
    qed
  qed
qed

lemma list_ex_Eol:
  "list_ex (\<lambda>st. snd st = []) (concat (map (pmatch Eol) sts)) \<longleftrightarrow> (\<exists>st \<in> set sts. snd st = [])"
  by (induction sts) (auto simp: list_ex_iff)

lemma in_bracket_digit: "in_bracket c [(CHR ''0'', CHR ''9'')] \<longleftrightarrow> isdigit c"
  by (simp add: in_bracket_def isdigit_def)

lemma regex_pattern_year:
  "regex pattern_year s \<longleftrightarrow> length s = 4 \<and> (\<forall>c \<in> set s. isdigit c)"
proof -
  have "regex pattern_year s \<longleftrightarrow>
        (\<exists>st \<in> set (count_iter (pmatch (Bracket [(CHR ''0'', CHR ''9'')])) 4 (True, s)).
           snd st = [])"
    by (simp add: regex_def pattern_year_def list_ex_Eol del: pmatch.simps(1))
  also have "\<dots> \<longleftrightarrow> 4 \<le> length s \<and> (\<forall>c \<in> set (take 4 s). isdigit c) \<and> drop 4 s = []"
    unfolding count_Bracket by (simp add: in_bracket_digit)
  also have "\<dots> \<longleftrightarrow> length s = 4 \<and> (\<forall>c \<in> set s. isdigit c)"
    by auto
  finally show ?thesis .
qed

lemma plus_Bracket:
  "(\<exists>st \<in> set (plus_iter (pmatch (Bracket rs)) k (b, s)). snd st = []) \<longleftrightarrow>
     s \<noteq> [] \<and> (\<forall>c \<in> set s. in_bracket c rs) \<and> length s \<le> Suc k"
proof (induction k arbitrary: b s)
  case 0
  show ?case by (cases s) auto
next
  case (Suc k)
  show ?case
  proof (cases s)
    case Nil
    then show ?thesis by simp
  next
    case (Cons c cs)
    show ?thesis
    proof (cases "in_bracket c rs")
      case True
      then show ?thesis using Cons Suc.IH [of False cs] by (cases cs) auto
    next
      case False
      then show ?thesis using Cons by simp
    qed
  qed
qed

lemma in_bracket_text:
  "in_bracket c [(CHR ''a'', CHR ''z''), (CHR ''A'', CHR ''Z''), (CHR ''0'', CHR ''9''), (CHR '' '', CHR '' '')]
     \<longleftrightarrow> istext c"
  by (auto simp add: in_bracket_def istext_def Let_def)

lemma regex_pattern_text:
  "regex pattern_text s \<longleftrightarrow> s \<noteq> [] \<and> (\<forall>c \<in> set s. istext c)"
proof -
  let ?B = "Bracket [(CHR ''a'', CHR ''z''), (CHR ''A'', CHR ''Z''), (CHR ''0'', CHR ''9''), (CHR '' '', CHR '' '')]"
  have "regex pattern_text s \<longleftrightarrow>
        (\<exists>st \<in> set (plus_iter (pmatch ?B) (length s) (True, s)). snd st = [])"
    by (simp add: regex_def pattern_text_def list_ex_Eol del: pmatch.simps(1))
  also have "\<dots> \<longleftrightarrow> s \<noteq> [] \<and> (\<forall>c \<in> set s. istext c)"
    unfolding plus_Bracket by (simp add: in_bracket_text)
  finally show ?thesis .
qed


section \<open>Properties of the validated input reader\<close>

lemma istream_getline_line:
  assumes "good inp" "buf inp = line @ newline # rest" "newline \<notin> set line"
  shows "istream_getline inp str = (line, inp\<lparr>buf := rest\<rparr>)"
proof -
  have "takeWhile (\<lambda>c. c \<noteq> newline) (line @ newline # rest) = line"
    using assms(3) by (subst takeWhile_append2) auto
  moreover have "dropWhile (\<lambda>c. c \<noteq> newline) (line @ newline # rest) = newline # rest"
    using assms(3) by (subst dropWhile_append2) auto
  ultimately show ?thesis
    using assms(1,2) by (simp add: istream_getline_def)
qed

lemma getValidatedString_accept:
  assumes "good (cin w)" "buf (cin w) = line @ newline # rest" "newline \<notin> set line"
    and "regex_match line re"
  shows "getValidatedString prompt re w =
           Some (line, w\<lparr>cin := (cin w)\<lparr>buf := rest\<rparr>, cout := cout w @ map Ch prompt\<rparr>)"
proof -
  have "istream_getline (cin (print prompt w)) [] = (line, (cin w)\<lparr>buf := rest\<rparr>)"
    using assms(1-3) by (simp add: istream_getline_line)
  then show ?thesis
    using assms(4) by (subst getValidatedString.simps) (simp add: Let_def print_def)
qed






lemma istext_not_newline: "istext c \<Longrightarrow> c \<noteq> newline"
  by (auto simp: istext_def Let_def)

text \<open>
  Claim C6. When the next input line matches the pattern in full, \<open>getValidatedString\<close>
  returns that line as it is after one read: the prompt was printed once, nothing else
  was printed and the screen was not cleared, and the input is left after that line.
  This holds for any prompt and any pattern; for the pattern \<open>^[a-zA-Z0-9 ]+$\<close> the
  matching lines are the non-empty lines of letters, digits and spaces.
\<close>

theorem getValidatedString_first_attempt:
  "(good (cin w) \<and> buf (cin w) = line @ newline # rest \<and> newline \<notin> set line
      \<and> regex_match line re
    \<longrightarrow> getValidatedString prompt re w =
           Some (line, w\<lparr>cin := (cin w)\<lparr>buf := rest\<rparr>, cout := cout w @ map Ch prompt\<rparr>))
   \<and> (good (cin w) \<and> buf (cin w) = line @ newline # rest
      \<and> line \<noteq> [] \<and> (\<forall>c \<in> set line. istext c)
    \<longrightarrow> regex_match line (regex pattern_text)
        \<and> getValidatedString prompt (regex pattern_text) w =
           Some (line, w\<lparr>cin := (cin w)\<lparr>buf := rest\<rparr>, cout := cout w @ map Ch prompt\<rparr>))"
proof (intro conjI impI)
  assume "good (cin w) \<and> buf (cin w) = line @ newline # rest \<and> newline \<notin> set line
      \<and> regex_match line re"
  then show "getValidatedString prompt re w =
           Some (line, w\<lparr>cin := (cin w)\<lparr>buf := rest\<rparr>, cout := cout w @ map Ch prompt\<rparr>)"
    by (intro getValidatedString_accept) simp_all
next
  assume a: "good (cin w) \<and> buf (cin w) = line @ newline # rest
      \<and> line \<noteq> [] \<and> (\<forall>c \<in> set line. istext c)"
  then show m: "regex_match line (regex pattern_text)"
    by (simp add: regex_match_def regex_pattern_text)
  from a have "newline \<notin> set line" using istext_not_newline by blast
  with a m show "getValidatedString prompt (regex pattern_text) w =
           Some (line, w\<lparr>cin := (cin w)\<lparr>buf := rest\<rparr>, cout := cout w @ map Ch prompt\<rparr>)"
    by (intro getValidatedString_accept) simp_all
qed

theorem getValidatedString_first_attempt_witness:
  "regex_match ''Frank Herbert'' (regex pattern_text)
   \<and> getValidatedString ''Enter author: '' (regex pattern_text)
        (world_with (''Frank Herbert'' @ endl @ ''1965'' @ endl) []) =
      Some (''Frank Herbert'',
            \<lparr>cin = \<lparr>buf = ''1965'' @ endl, eofbit = False, failbit = False\<rparr>,
             cout = map Ch ''Enter author: '', books = []\<rparr>)"
proof -
  let ?w = "world_with (''Frank Herbert'' @ endl @ ''1965'' @ endl) []"
  have h: "good (cin ?w) \<and> buf (cin ?w) = ''Frank Herbert'' @ newline # (''1965'' @ endl)
      \<and> ''Frank Herbert'' \<noteq> [] \<and> (\<forall>c \<in> set ''Frank Herbert''. istext c)"
    by (simp add: world_with_def good_def istext_def)
  from getValidatedString_first_attempt [of ?w "''Frank Herbert''" "''1965'' @ endl"
      "regex pattern_text" "''Enter author: ''"] h
  have "regex_match ''Frank Herbert'' (regex pattern_text)
        \<and> getValidatedString ''Enter author: '' (regex pattern_text) ?w =
           Some (''Frank Herbert'',
                 ?w\<lparr>cin := (cin ?w)\<lparr>buf := ''1965'' @ endl\<rparr>, cout := cout ?w @ map Ch ''Enter author: ''\<rparr>)"
    by blast
  then show ?thesis by (simp add: world_with_def)
qed






section \<open>Reading a number\<close>

lemma isdigit_char_of: "(d::nat) < 10 \<Longrightarrow> isdigit (char_of (48 + d))"
  by (simp add: isdigit_def)

lemma of_char_digit: "d < 10 \<Longrightarrow> of_char (char_of (48 + d)) - 48 = (d::nat)"
  by simp

lemma string_of_nat_digits: "\<forall>c \<in> set (string_of_nat n). isdigit c"
proof (induction n rule: string_of_nat.induct)
  case (1 n)
  show ?case
  proof (cases "n < 10")
    case True
    then show ?thesis by (subst string_of_nat.simps) (simp add: isdigit_char_of)
  next
    case False
    then show ?thesis using 1 by (subst string_of_nat.simps) (simp add: isdigit_char_of)
  qed
qed

lemma string_of_nat_nonempty: "string_of_nat n \<noteq> []"
  by (subst string_of_nat.simps) simp

lemma digits_value_snoc: "digits_value (ds @ [c]) = 10 * digits_value ds + (of_char c - 48)"
  by (simp add: digits_value_def)

lemma digits_value_string_of_nat: "digits_value (string_of_nat n) = n"
proof (induction n rule: string_of_nat.induct)
  case (1 n)
  show ?case
  proof (cases "n < 10")
    case True
    then show ?thesis by (subst string_of_nat.simps) (simp add: digits_value_def)
  next
    case False
    then have "digits_value (string_of_nat (n div 10)) = n div 10" by (rule 1)
    with False show ?thesis
      by (subst string_of_nat.simps) (simp add: digits_value_snoc)
  qed
qed

lemma isdigit_not_isspace: "isdigit c \<Longrightarrow> \<not> isspace c"
  by (auto simp: isdigit_def isspace_def)

lemma isdigit_not_sign: "isdigit c \<Longrightarrow> c \<noteq> CHR ''-'' \<and> c \<noteq> CHR ''+''"
  by (auto simp: isdigit_def)

lemma dropWhile_isspace:
  assumes "\<forall>c \<in> set ws. isspace c" "\<not> isspace c"
  shows "dropWhile isspace (ws @ c # rest) = c # rest"
  using assms by (simp add: dropWhile_append2)

text \<open>
  A decimal number, after any white space and before a character that is not a digit, is
  read in full; its value is stored when it fits an \<open>int\<close>.
\<close>

lemma istream_extract_int_number:
  assumes "good inp" "buf inp = ws @ string_of_nat k @ c # rest"
    and "\<forall>x \<in> set ws. isspace x" "\<not> isdigit c" "int k \<le> INT_MAX"
  shows "istream_extract_int inp n = (int k, inp\<lparr>buf := c # rest\<rparr>)"
proof -
  obtain d ds where ds: "string_of_nat k = d # ds"
    using string_of_nat_nonempty [of k] by (cases "string_of_nat k") auto
  have dig: "\<forall>x \<in> set (d # ds). isdigit x"
    using string_of_nat_digits [of k] ds by simp
  then have d: "isdigit d" by simp
  have b1: "dropWhile isspace (buf inp) = d # ds @ c # rest"
    using assms(2,3) ds isdigit_not_isspace [OF d] by (simp add: dropWhile_append2)
  have tw: "takeWhile isdigit (d # ds @ c # rest) = d # ds"
    using dig assms(4) takeWhile_append2 [of "d # ds" isdigit "c # rest"] by simp
  have dw: "dropWhile isdigit (d # ds @ c # rest) = c # rest"
    using dig assms(4) dropWhile_append2 [of "d # ds" isdigit "c # rest"] by simp
  have v: "digits_value (d # ds) = k"
    using digits_value_string_of_nat [of k] ds by simp
  have inp: "\<lparr>buf = c # rest, eofbit = False, failbit = False\<rparr> = inp\<lparr>buf := c # rest\<rparr>"
    using assms(1) by (simp add: good_def)
  show ?thesis
    unfolding istream_extract_int_def Let_def b1
    using assms(1,5) isdigit_not_sign [OF d] tw dw v inp
    by simp
qed

text \<open>A character that cannot start a number makes the extraction fail and stays unread.\<close>

lemma istream_extract_int_no_number:
  assumes "good inp" "buf inp = ws @ c # rest"
    and "\<forall>x \<in> set ws. isspace x" "\<not> isdigit c" "\<not> isspace c" "c \<noteq> CHR ''-''" "c \<noteq> CHR ''+''"
  shows "istream_extract_int inp n = (0, \<lparr>buf = c # rest, eofbit = False, failbit = True\<rparr>)"
proof -
  have b1: "dropWhile isspace (buf inp) = c # rest"
    using assms(2,3,5) by (simp add: dropWhile_append2)
  show ?thesis
    unfolding istream_extract_int_def Let_def b1
    using assms(1,4,6,7) by simp
qed

section \<open>Reading the menu choice\<close>

lemma run_choice_accept:
  assumes "good (cin lib)" "buf (cin lib) = ws @ string_of_nat k @ c # rest"
    and "\<forall>x \<in> set ws. isspace x" "\<not> isdigit c" "int k \<le> INT_MAX"
    and "1 \<le> k" "k \<le> length (actions lib) + 1"
  shows "run_choice ch lib =
           Some (int k, lib\<lparr>cin := (cin lib)\<lparr>buf := rest\<rparr>,
                            cout := cout lib @ map Ch ''Enter your choice: ''\<rparr>)"
proof -
  have e: "istream_extract_int (cin lib) ch
             = (int k, (cin lib)\<lparr>buf := c # rest\<rparr>)"
    using assms(1-5) by (simp add: istream_extract_int_number)
  have i: "istream_ignore ((cin lib)\<lparr>buf := c # rest\<rparr>) = (cin lib)\<lparr>buf := rest\<rparr>"
    using assms(1) by (simp add: istream_ignore_def good_def)
  show ?thesis
    using assms(1,6,7)
    by (subst run_choice.simps) (simp add: Let_def e i good_def print_def)
qed

lemma run_choice_reject_range:
  assumes "good (cin lib)" "buf (cin lib) = ws @ string_of_nat k @ c # rest"
    and "\<forall>x \<in> set ws. isspace x" "\<not> isdigit c" "int k \<le> INT_MAX"
    and "k = 0 \<or> length (actions lib) + 1 < k"
  shows "run_choice ch lib =
           run_choice (int k)
             (print (''Invalid input. Please try again.'' @ endl)
                (displayMenu (clearScreen
                   ((print ''Enter your choice: '' lib)\<lparr>cin := (cin lib)\<lparr>buf := c # rest\<rparr>\<rparr>))))"
proof -
  have e: "istream_extract_int (cin lib) ch
             = (int k, (cin lib)\<lparr>buf := c # rest\<rparr>)"
    using assms(1-5) by (simp add: istream_extract_int_number)
  have r: "int k < 1 \<or> int (length (actions lib)) + 1 < int k"
    using assms(6) by auto
  show ?thesis
    using assms(1) r
    by (subst run_choice.simps) (simp add: Let_def e good_def)
qed

lemma run_choice_reject_char:
  assumes "good (cin lib)" "buf (cin lib) = ws @ c # rest"
    and "\<forall>x \<in> set ws. isspace x" "\<not> isdigit c" "\<not> isspace c" "c \<noteq> CHR ''-''" "c \<noteq> CHR ''+''"
  shows "run_choice ch lib =
           run_choice 0
             ((print (''Invalid input. Please try again.'' @ endl)
                (displayMenu (clearScreen (print ''Enter your choice: '' lib))))
              \<lparr>cin := (cin lib)\<lparr>buf := rest\<rparr>\<rparr>)"
proof -
  have e: "istream_extract_int (cin lib) ch
             = (0, \<lparr>buf = c # rest, eofbit = False, failbit = True\<rparr>)"
    using assms by (simp add: istream_extract_int_no_number)
  have i: "istream_ignore (istream_clear \<lparr>buf = c # rest, eofbit = False, failbit = True\<rparr>)
             = (cin lib)\<lparr>buf := rest\<rparr>"
    using assms(1) by (simp add: istream_ignore_def istream_clear_def good_def)
  have l: "(print s (displayMenu (clearScreen (l\<lparr>cin := x\<rparr>))))\<lparr>cin := y\<rparr>
             = (print s (displayMenu (clearScreen l)))\<lparr>cin := y\<rparr>" for s l x y
    by (simp add: displayMenu_eq print_def clearScreen_def)
  show ?thesis
    by (subst run_choice.simps) (simp add: Let_def e i l)
qed

lemma run_choice_reject_fail:
  assumes "failbit (snd (istream_extract_int (cin lib) ch))"
  shows "run_choice ch lib =
           run_choice (fst (istream_extract_int (cin lib) ch))
             ((print (''Invalid input. Please try again.'' @ endl)
                (displayMenu (clearScreen
                   ((print ''Enter your choice: '' lib)\<lparr>cin := snd (istream_extract_int (cin lib) ch)\<rparr>))))
              \<lparr>cin := istream_ignore (istream_clear (snd (istream_extract_int (cin lib) ch)))\<rparr>)"
  using assms by (subst run_choice.simps) (simp add: Let_def)

lemma run_choice_sound:
  assumes "run_choice ch lib = Some r"
  shows "1 \<le> fst r \<and> fst r \<le> int (length (actions lib)) + 1
         \<and> actions (snd r) = actions lib \<and> books (snd r) = books lib"
proof (rule run_choice.raw_induct
    [where P = "\<lambda>ch lib r. 1 \<le> fst r \<and> fst r \<le> int (length (actions lib)) + 1
         \<and> actions (snd r) = actions lib \<and> books (snd r) = books lib", OF _ assms], goal_cases)
  case (1 f ch' lib' r')
  show ?case
  proof (cases "failbit (snd (istream_extract_int (cin lib') ch'))")
    case True
    with 1(2) have "f (fst (istream_extract_int (cin lib') ch'))
        ((print (''Invalid input. Please try again.'' @ endl)
            (displayMenu (clearScreen ((print ''Enter your choice: '' lib')
               \<lparr>cin := snd (istream_extract_int (cin lib') ch')\<rparr>))))
          \<lparr>cin := istream_ignore (istream_clear (snd (istream_extract_int (cin lib') ch')))\<rparr>) = Some r'"
      by (simp add: Let_def)
    from 1(1) [OF this] show ?thesis by simp
  next
    case False
    note nf = this
    show ?thesis
    proof (cases "fst (istream_extract_int (cin lib') ch') < 1
        \<or> fst (istream_extract_int (cin lib') ch') > int (length (actions lib')) + 1")
      case True
      with nf 1(2) have "f (fst (istream_extract_int (cin lib') ch'))
        (print (''Invalid input. Please try again.'' @ endl)
            (displayMenu (clearScreen ((print ''Enter your choice: '' lib')
               \<lparr>cin := snd (istream_extract_int (cin lib') ch')\<rparr>)))) = Some r'"
        by (simp add: Let_def)
      from 1(1) [OF this] show ?thesis by simp
    next
      case False
      with nf 1(2) show ?thesis by (auto simp: Let_def)
    qed
  qed
qed

text \<open>
  Claim C2. With \<open>N\<close> registered actions, the loop that reads the menu choice returns
  only integers from 1 to \<open>N + 1\<close>, whatever the input. A decimal number \<open>k\<close> on the
  input (that fits an \<open>int\<close>) is accepted at once when \<open>1 \<le> k \<le> N + 1\<close>; otherwise,
  as for 0 and for \<open>N + 2\<close>, the screen is cleared, the menu is rendered again, the error
  message is printed and the read is tried again on the rest of the input. A character
  that cannot start a number gets the same answer, and is skipped; so does any input on
  which the extraction fails (a sign without digits, a number too large for an \<open>int\<close>),
  after which the flags are cleared and one character is skipped.
\<close>

theorem menu_choice_validation:
  "(\<forall>r. run_choice ch lib = Some r \<longrightarrow> 1 \<le> fst r \<and> fst r \<le> int (length (actions lib)) + 1)
   \<and> (good (cin lib) \<and> buf (cin lib) = ws @ string_of_nat k @ c # rest
        \<and> (\<forall>x \<in> set ws. isspace x) \<and> \<not> isdigit c \<and> int k \<le> INT_MAX
      \<longrightarrow> (if 1 \<le> k \<and> k \<le> length (actions lib) + 1
           then run_choice ch lib =
                  Some (int k, lib\<lparr>cin := (cin lib)\<lparr>buf := rest\<rparr>,
                                   cout := cout lib @ map Ch ''Enter your choice: ''\<rparr>)
           else run_choice ch lib =
                  run_choice (int k)
                    (print (''Invalid input. Please try again.'' @ endl)
                       (displayMenu (clearScreen
                          ((print ''Enter your choice: '' lib)\<lparr>cin := (cin lib)\<lparr>buf := c # rest\<rparr>\<rparr>))))))
   \<and> (good (cin lib) \<and> buf (cin lib) = ws @ c # rest
        \<and> (\<forall>x \<in> set ws. isspace x) \<and> \<not> isdigit c \<and> \<not> isspace c \<and> c \<noteq> CHR ''-'' \<and> c \<noteq> CHR ''+''
      \<longrightarrow> run_choice ch lib =
            run_choice 0
              ((print (''Invalid input. Please try again.'' @ endl)
                 (displayMenu (clearScreen (print ''Enter your choice: '' lib))))
               \<lparr>cin := (cin lib)\<lparr>buf := rest\<rparr>\<rparr>))
   \<and> (failbit (snd (istream_extract_int (cin lib) ch))
      \<longrightarrow> run_choice ch lib =
            run_choice (fst (istream_extract_int (cin lib) ch))
              ((print (''Invalid input. Please try again.'' @ endl)
                 (displayMenu (clearScreen
                    ((print ''Enter your choice: '' lib)\<lparr>cin := snd (istream_extract_int (cin lib) ch)\<rparr>))))
               \<lparr>cin := istream_ignore (istream_clear (snd (istream_extract_int (cin lib) ch)))\<rparr>))"
proof (intro conjI allI impI)
  fix r
  assume "run_choice ch lib = Some r"
  from run_choice_sound [OF this]
  show "1 \<le> fst r" "fst r \<le> int (length (actions lib)) + 1" by simp_all
next
  assume a: "good (cin lib) \<and> buf (cin lib) = ws @ string_of_nat k @ c # rest
        \<and> (\<forall>x \<in> set ws. isspace x) \<and> \<not> isdigit c \<and> int k \<le> INT_MAX"
  show "if 1 \<le> k \<and> k \<le> length (actions lib) + 1
           then run_choice ch lib =
                  Some (int k, lib\<lparr>cin := (cin lib)\<lparr>buf := rest\<rparr>,
                                   cout := cout lib @ map Ch ''Enter your choice: ''\<rparr>)
           else run_choice ch lib =
                  run_choice (int k)
                    (print (''Invalid input. Please try again.'' @ endl)
                       (displayMenu (clearScreen
                          ((print ''Enter your choice: '' lib)\<lparr>cin := (cin lib)\<lparr>buf := c # rest\<rparr>\<rparr>))))"
  proof (cases "1 \<le> k \<and> k \<le> length (actions lib) + 1")
    case True
    have "run_choice ch lib =
                  Some (int k, lib\<lparr>cin := (cin lib)\<lparr>buf := rest\<rparr>,
                                   cout := cout lib @ map Ch ''Enter your choice: ''\<rparr>)"
      using a True by (intro run_choice_accept [where ws = ws and c = c]) simp_all
    then show ?thesis by (simp only: if_P [OF True])
  next
    case False
    then have "k = 0 \<or> length (actions lib) + 1 < k" by arith
    then have "run_choice ch lib =
                  run_choice (int k)
                    (print (''Invalid input. Please try again.'' @ endl)
                       (displayMenu (clearScreen
                          ((print ''Enter your choice: '' lib)\<lparr>cin := (cin lib)\<lparr>buf := c # rest\<rparr>\<rparr>))))"
      using a by (intro run_choice_reject_range [where ws = ws]) simp_all
    then show ?thesis by (simp only: if_not_P [OF False])
  qed
next
  assume "good (cin lib) \<and> buf (cin lib) = ws @ c # rest
        \<and> (\<forall>x \<in> set ws. isspace x) \<and> \<not> isdigit c \<and> \<not> isspace c \<and> c \<noteq> CHR ''-'' \<and> c \<noteq> CHR ''+''"
  then show "run_choice ch lib =
            run_choice 0
              ((print (''Invalid input. Please try again.'' @ endl)
                 (displayMenu (clearScreen (print ''Enter your choice: '' lib))))
               \<lparr>cin := (cin lib)\<lparr>buf := rest\<rparr>\<rparr>)"
    by (intro run_choice_reject_char [where ws = ws and c = c]) simp_all
next
  assume "failbit (snd (istream_extract_int (cin lib) ch))"
  then show "run_choice ch lib =
            run_choice (fst (istream_extract_int (cin lib) ch))
              ((print (''Invalid input. Please try again.'' @ endl)
                 (displayMenu (clearScreen
                    ((print ''Enter your choice: '' lib)\<lparr>cin := snd (istream_extract_int (cin lib) ch)\<rparr>))))
               \<lparr>cin := istream_ignore (istream_clear (snd (istream_extract_int (cin lib) ch)))\<rparr>)"
    by (rule run_choice_reject_fail)
qed

theorem menu_choice_validation_witness:
  "map_option fst
     (run_choice 0 (main_library
        \<lparr>buf = ''5'' @ endl @ ''x'' @ endl @ ''0'' @ endl @ ''2'' @ endl, eofbit = False, failbit = False\<rparr>))
   = Some 2
   \<and> run_choice 0 (main_library \<lparr>buf = ''4'' @ endl, eofbit = False, failbit = False\<rparr>)
     = Some (4, (main_library \<lparr>buf = [], eofbit = False, failbit = False\<rparr>)
                  \<lparr>cout := map Ch ''Enter your choice: ''\<rparr>)"
proof (intro conjI)
  let ?err = "''Invalid input. Please try again.'' @ endl"
  let ?L0 = "main_library
        \<lparr>buf = ''5'' @ endl @ ''x'' @ endl @ ''0'' @ endl @ ''2'' @ endl, eofbit = False, failbit = False\<rparr>"
  let ?L1 = "print ?err (displayMenu (clearScreen
                ((print ''Enter your choice: '' ?L0)
                   \<lparr>cin := (cin ?L0)\<lparr>buf := newline # (''x'' @ endl @ ''0'' @ endl @ ''2'' @ endl)\<rparr>\<rparr>)))"
  let ?L2 = "(print ?err (displayMenu (clearScreen (print ''Enter your choice: '' ?L1))))
               \<lparr>cin := (cin ?L1)\<lparr>buf := endl @ ''0'' @ endl @ ''2'' @ endl\<rparr>\<rparr>"
  let ?L3 = "print ?err (displayMenu (clearScreen
                ((print ''Enter your choice: '' ?L2)
                   \<lparr>cin := (cin ?L2)\<lparr>buf := newline # (''2'' @ endl)\<rparr>\<rparr>)))"
  have s5: "string_of_nat 5 = ''5''" and s0: "string_of_nat 0 = ''0''"
    and s2: "string_of_nat 2 = ''2''" and s4: "string_of_nat 4 = ''4''"
    by (simp_all add: string_of_nat.simps)
  have nd: "\<not> isdigit newline" "\<not> isdigit CHR ''x''" "\<not> isspace CHR ''x''" "isspace newline"
    by (simp_all add: isdigit_def isspace_def)
  have "run_choice 0 ?L0 = run_choice (int 5) ?L1"
    using menu_choice_validation [of 0 ?L0 "[]" 5 newline "''x'' @ endl @ ''0'' @ endl @ ''2'' @ endl"]
    by (simp add: good_def s5 nd)
  also have "\<dots> = run_choice 0 ?L2"
    using menu_choice_validation [of "int 5" ?L1 "endl" 0 "CHR ''x''" "endl @ ''0'' @ endl @ ''2'' @ endl"]
    by (simp add: good_def nd)
  also have "\<dots> = run_choice (int 0) ?L3"
    using menu_choice_validation [of 0 ?L2 "endl" 0 newline "''2'' @ endl"]
    by (simp add: good_def s0 nd)
  also have "\<dots> = Some (int 2, ?L3\<lparr>cin := (cin ?L3)\<lparr>buf := []\<rparr>,
                                   cout := cout ?L3 @ map Ch ''Enter your choice: ''\<rparr>)"
    using menu_choice_validation [of "int 0" ?L3 "endl" 2 newline "[]"]
    by (simp add: good_def s2 nd)
  finally show "map_option fst (run_choice 0 ?L0) = Some 2" by simp
  let ?M = "main_library \<lparr>buf = ''4'' @ endl, eofbit = False, failbit = False\<rparr>"
  have "run_choice 0 ?M = Some (int 4, ?M\<lparr>cin := (cin ?M)\<lparr>buf := []\<rparr>,
                                   cout := cout ?M @ map Ch ''Enter your choice: ''\<rparr>)"
    using menu_choice_validation [of 0 ?M "[]" 4 newline "[]"]
    by (simp add: good_def s4 nd)
  then show "run_choice 0 ?M
     = Some (4, (main_library \<lparr>buf = [], eofbit = False, failbit = False\<rparr>)
                  \<lparr>cout := map Ch ''Enter your choice: ''\<rparr>)"
    by (simp add: main_library_def addAction_def Library_new_def)
qed

section \<open>One pass of the menu loop\<close>

lemma world_of_fields [simp]:
  "cin (world_of lib) = cin lib" "cout (world_of lib) = cout lib" "books (world_of lib) = books lib"
  by (simp_all add: world_of_def)

lemma with_world_fields [simp]:
  "cin (with_world w lib) = cin w" "cout (with_world w lib) = cout w"
  "books (with_world w lib) = books w" "actions (with_world w lib) = actions lib"
  by (simp_all add: with_world_def)

text \<open>The state in which a choice has been read from a menu shown on entry to the loop body.\<close>

lemma run_iteration_choice:
  assumes "good (cin lib)" "buf (cin lib) = ws @ string_of_nat k @ c # rest"
    and "\<forall>x \<in> set ws. isspace x" "\<not> isdigit c" "int k \<le> INT_MAX"
    and "1 \<le> k" "k \<le> length (actions lib) + 1"
  shows "run_choice 0 (displayMenu (clearScreen lib)) =
           Some (int k, (print ''Enter your choice: '' (displayMenu (clearScreen lib)))
                           \<lparr>cin := (cin lib)\<lparr>buf := rest\<rparr>\<rparr>)"
proof -
  have "run_choice 0 (displayMenu (clearScreen lib)) =
          Some (int k, (displayMenu (clearScreen lib))
                  \<lparr>cin := (cin (displayMenu (clearScreen lib)))\<lparr>buf := rest\<rparr>,
                    cout := cout (displayMenu (clearScreen lib)) @ map Ch ''Enter your choice: ''\<rparr>)"
    using assms by (intro run_choice_accept [where ws = ws and c = c]) simp_all
  then show ?thesis by (simp add: print_def)
qed

lemma run_iteration_exit:
  assumes "good (cin lib)" "buf (cin lib) = ws @ string_of_nat (length (actions lib) + 1) @ c # rest"
    and "\<forall>x \<in> set ws. isspace x" "\<not> isdigit c" "int (length (actions lib) + 1) \<le> INT_MAX"
  shows "run_iteration running lib =
           Some (Break, False,
                 print (''Thank you for using the library!'' @ endl)
                   (clearScreen ((print ''Enter your choice: '' (displayMenu (clearScreen lib)))
                                    \<lparr>cin := (cin lib)\<lparr>buf := rest\<rparr>\<rparr>)))"
proof -
  have "run_choice 0 (displayMenu (clearScreen lib)) =
           Some (int (length (actions lib) + 1),
                 (print ''Enter your choice: '' (displayMenu (clearScreen lib)))
                           \<lparr>cin := (cin lib)\<lparr>buf := rest\<rparr>\<rparr>)"
    using assms by (intro run_iteration_choice [where ws = ws and c = c]) simp_all
  then show ?thesis
    by (simp add: run_iteration_def exitAction_action_def)
qed

lemma run_iteration_dispatch:
  assumes "good (cin lib)" "buf (cin lib) = ws @ string_of_nat k @ c # rest"
    and "\<forall>x \<in> set ws. isspace x" "\<not> isdigit c" "int k \<le> INT_MAX"
    and "1 \<le> k" "k \<le> length (actions lib)"
  shows "run_iteration running lib =
           (case getAction (actions lib ! (k - 1)) (books lib)
                   (world_of (clearScreen ((print ''Enter your choice: '' (displayMenu (clearScreen lib)))
                                    \<lparr>cin := (cin lib)\<lparr>buf := rest\<rparr>\<rparr>))) of
              None \<Rightarrow> None
            | Some (param, w) \<Rightarrow>
                Some (Again, running,
                      with_world w
                        (clearScreen ((print ''Enter your choice: '' (displayMenu (clearScreen lib)))
                                    \<lparr>cin := (cin lib)\<lparr>buf := rest\<rparr>\<rparr>))))"
proof -
  have "run_choice 0 (displayMenu (clearScreen lib)) =
           Some (int k, (print ''Enter your choice: '' (displayMenu (clearScreen lib)))
                           \<lparr>cin := (cin lib)\<lparr>buf := rest\<rparr>\<rparr>)"
    using assms by (intro run_iteration_choice [where ws = ws and c = c]) simp_all
  moreover have "nat (int k - 1) = k - 1" by simp
  moreover have "int k \<noteq> int (length (actions lib)) + 1" using assms(7) by simp
  ultimately show ?thesis
    by (simp add: run_iteration_def Let_def)
qed

lemma run_loop_Break:
  "run_iteration running lib = Some (Break, st) \<Longrightarrow> run_loop running lib = Some st"
  by (subst run_loop.simps) simp

lemma run_loop_Again:
  "run_iteration running lib = Some (Again, st) \<Longrightarrow> run_loop running lib = run_loop (fst st) (snd st)"
  by (subst run_loop.simps) simp

lemma run_iteration_frame:
  assumes "run_iteration running lib = Some (fl, r, lib')"
    and "\<forall>a \<in> set (actions lib). \<forall>p w p' w'. getAction a p w = Some (p', w') \<longrightarrow> prefix (books w) (books w')"
  shows "prefix (books lib) (books lib') \<and> actions lib' = actions lib"
proof -
  from assms(1) obtain choice l1 where
    ch: "run_choice 0 (displayMenu (clearScreen lib)) = Some (choice, l1)"
    by (auto simp: run_iteration_def split: option.splits)
  from run_choice_sound [OF ch]
  have rng: "1 \<le> choice" "choice \<le> int (length (actions lib)) + 1"
    and l1: "actions l1 = actions lib" "books l1 = books lib"
    by simp_all
  show ?thesis
  proof (cases "choice = int (length (actions l1)) + 1")
    case True
    with assms(1) ch l1 show ?thesis
      by (auto simp: run_iteration_def exitAction_action_def)
  next
    case False
    with assms(1) ch obtain p' w' where
      cb: "getAction (actions l1 ! nat (choice - 1)) (books l1) (world_of (clearScreen l1)) = Some (p', w')"
      and lib': "lib' = with_world w' (clearScreen l1)"
      by (auto simp: run_iteration_def Let_def split: option.splits)
    from False rng l1 have "nat (choice - 1) < length (actions lib)" by auto
    then have "actions l1 ! nat (choice - 1) \<in> set (actions lib)" using l1 by simp
    with assms(2) cb have "prefix (books (world_of (clearScreen l1))) (books w')" by blast
    with lib' l1 show ?thesis by simp
  qed
qed

lemma run_loop_frame:
  assumes "run_loop running lib = Some st"
    and "\<forall>a \<in> set (actions lib). \<forall>p w p' w'. getAction a p w = Some (p', w') \<longrightarrow> prefix (books w) (books w')"
  shows "prefix (books lib) (books (snd st)) \<and> actions (snd st) = actions lib"
proof -
  have "(\<forall>a \<in> set (actions lib). \<forall>p w p' w'. getAction a p w = Some (p', w') \<longrightarrow> prefix (books w) (books w'))
    \<longrightarrow> prefix (books lib) (books (snd st)) \<and> actions (snd st) = actions lib"
  proof (rule run_loop.raw_induct
    [where P = "\<lambda>running lib st.
      (\<forall>a \<in> set (actions lib). \<forall>p w p' w'. getAction a p w = Some (p', w') \<longrightarrow> prefix (books w) (books w'))
       \<longrightarrow> prefix (books lib) (books (snd st)) \<and> actions (snd st) = actions lib", OF _ assms(1)], goal_cases)
    case (1 f running' lib0 st')
    show ?case
    proof
      assume H: "\<forall>a \<in> set (actions lib0). \<forall>p w p' w'. getAction a p w = Some (p', w') \<longrightarrow> prefix (books w) (books w')"
      from 1(2) obtain fl r l where it: "run_iteration running' lib0 = Some (fl, r, l)"
        by (auto split: option.splits)
      from run_iteration_frame [OF it H]
      have fr: "prefix (books lib0) (books l)" "actions l = actions lib0" by simp_all
      show "prefix (books lib0) (books (snd st')) \<and> actions (snd st') = actions lib0"
      proof (cases fl)
        case Break
        with 1(2) it have "st' = (r, l)" by simp
        with fr show ?thesis by simp
      next
        case Again
        with 1(2) it have "f r l = Some st'" by simp
        from 1(1) [OF this] H fr
        have "prefix (books l) (books (snd st')) \<and> actions (snd st') = actions l" by simp
        with fr show ?thesis by (auto intro: prefix_order.trans)
      qed
    qed
  qed
  with assms(2) show ?thesis by blast
qed

section \<open>Leaving the menu loop\<close>

lemma menu_lines_titles:
  assumes "map getActionTitle as' = map getActionTitle as"
  shows "map (\<lambda>i. string_of_nat (i + 1) @ ''. '' @ getActionTitle (as' ! i) @ endl) [0..<length as']
       = map (\<lambda>i. string_of_nat (i + 1) @ ''. '' @ getActionTitle (as ! i) @ endl) [0..<length as]"
proof -
  from assms have len: "length as' = length as" by (rule map_eq_imp_length_eq)
  have "getActionTitle (as' ! i) = getActionTitle (as ! i)" if "i < length as" for i
  proof -
    have "getActionTitle (as' ! i) = map getActionTitle as' ! i" using that len by simp
    also have "\<dots> = map getActionTitle as ! i" by (simp only: assms)
    also have "\<dots> = getActionTitle (as ! i)" using that by simp
    finally show ?thesis .
  qed
  then show ?thesis unfolding len by (intro map_cong) simp_all
qed

lemma displayMenu_titles:
  assumes "map getActionTitle (actions l') = map getActionTitle (actions l)" "world_of l' = world_of l"
  shows "world_of (displayMenu l') = world_of (displayMenu l)"
proof -
  from assms(1) have len: "length (actions l') = length (actions l)" by (rule map_eq_imp_length_eq)
  from assms(2) have "cin l' = cin l" "cout l' = cout l" "books l' = books l"
    by (simp_all add: world_of_def)
  then show ?thesis
    unfolding displayMenu_eq [of l'] displayMenu_eq [of l] menu_lines_titles [OF assms(1)]
    by (simp add: world_of_def len)
qed

lemma run_exit:
  assumes "good (cin lib)" "buf (cin lib) = ws @ string_of_nat (length (actions lib) + 1) @ c # rest"
    and "\<forall>x \<in> set ws. isspace x" "\<not> isdigit c" "int (length (actions lib) + 1) \<le> INT_MAX"
  shows "run lib =
           Some (print (''Thank you for using the library!'' @ endl)
                   (clearScreen ((print ''Enter your choice: '' (displayMenu (clearScreen lib)))
                                    \<lparr>cin := (cin lib)\<lparr>buf := rest\<rparr>\<rparr>)))"
  using run_loop_Break [OF run_iteration_exit [OF assms, of True]]
  by (simp add: run_def)

text \<open>
  Claim C4. When the number \<open>N + 1\<close> is entered at the menu of a registry of \<open>N\<close> actions,
  \<open>run\<close> returns: the menu was shown once, the choice was read, the screen was cleared and
  the farewell message printed last. Books and registry are as before. The outcome is the
  same whatever callbacks are registered under the same labels, so none of them is
  invoked (with callbacks that never return, \<open>run\<close> returns all the same).
\<close>

theorem run_exit_choice:
  "good (cin lib) \<and> buf (cin lib) = ws @ string_of_nat (length (actions lib) + 1) @ c # rest
     \<and> (\<forall>x \<in> set ws. isspace x) \<and> \<not> isdigit c \<and> int (length (actions lib) + 1) \<le> INT_MAX
   \<longrightarrow> run_iteration True lib =
         Some (Break, False,
               print (''Thank you for using the library!'' @ endl)
                 (clearScreen ((print ''Enter your choice: '' (displayMenu (clearScreen lib)))
                                  \<lparr>cin := (cin lib)\<lparr>buf := rest\<rparr>\<rparr>)))
     \<and> run lib =
         Some (print (''Thank you for using the library!'' @ endl)
                 (clearScreen ((print ''Enter your choice: '' (displayMenu (clearScreen lib)))
                                  \<lparr>cin := (cin lib)\<lparr>buf := rest\<rparr>\<rparr>)))
     \<and> (\<forall>acts. map getActionTitle acts = map getActionTitle (actions lib)
          \<longrightarrow> map_option world_of (run (lib\<lparr>actions := acts\<rparr>)) = map_option world_of (run lib))
     \<and> run (lib\<lparr>actions := map (\<lambda>a. LibraryAction (getActionTitle a) (\<lambda>p w. None)) (actions lib)\<rparr>) \<noteq> None"
proof (intro impI)
  assume a: "good (cin lib) \<and> buf (cin lib) = ws @ string_of_nat (length (actions lib) + 1) @ c # rest
     \<and> (\<forall>x \<in> set ws. isspace x) \<and> \<not> isdigit c \<and> int (length (actions lib) + 1) \<le> INT_MAX"
  let ?final = "\<lambda>l. print (''Thank you for using the library!'' @ endl)
                 (clearScreen ((print ''Enter your choice: '' (displayMenu (clearScreen l)))
                                  \<lparr>cin := (cin lib)\<lparr>buf := rest\<rparr>\<rparr>))"
  have it: "run_iteration True lib = Some (Break, False, ?final lib)"
    using a by (intro run_iteration_exit [where ws = ws and c = c]) simp_all
  have r: "run lib = Some (?final lib)"
    using a by (intro run_exit [where ws = ws and c = c]) simp_all
  have other: "run (lib\<lparr>actions := acts\<rparr>) = Some (?final (lib\<lparr>actions := acts\<rparr>))"
    if t: "map getActionTitle acts = map getActionTitle (actions lib)" for acts
  proof -
    from t have "length acts = length (actions lib)" by (rule map_eq_imp_length_eq)
    with a show ?thesis
      using run_exit [of "lib\<lparr>actions := acts\<rparr>" ws c rest] by simp
  qed
  have same: "world_of (?final (lib\<lparr>actions := acts\<rparr>)) = world_of (?final lib)"
    if t: "map getActionTitle acts = map getActionTitle (actions lib)" for acts
  proof -
    have "world_of (displayMenu (clearScreen (lib\<lparr>actions := acts\<rparr>))) = world_of (displayMenu (clearScreen lib))"
      using t by (intro displayMenu_titles) (simp_all add: world_of_def)
    then show ?thesis by (simp add: world_of_def)
  qed
  have ind: "\<forall>acts. map getActionTitle acts = map getActionTitle (actions lib)
          \<longrightarrow> map_option world_of (run (lib\<lparr>actions := acts\<rparr>)) = map_option world_of (run lib)"
    using other same r by simp
  have "map getActionTitle (map (\<lambda>a. LibraryAction (getActionTitle a) (\<lambda>p w. None)) (actions lib))
          = map getActionTitle (actions lib)"
    by simp
  from other [OF this]
  have nr: "run (lib\<lparr>actions := map (\<lambda>a. LibraryAction (getActionTitle a) (\<lambda>p w. None)) (actions lib)\<rparr>) \<noteq> None"
    by simp
  from it r ind nr show "run_iteration True lib = Some (Break, False, ?final lib)
     \<and> run lib = Some (?final lib)
     \<and> (\<forall>acts. map getActionTitle acts = map getActionTitle (actions lib)
          \<longrightarrow> map_option world_of (run (lib\<lparr>actions := acts\<rparr>)) = map_option world_of (run lib))
     \<and> run (lib\<lparr>actions := map (\<lambda>a. LibraryAction (getActionTitle a) (\<lambda>p w. None)) (actions lib)\<rparr>) \<noteq> None"
    by blast
qed


theorem run_exit_choice_witness:
  "map_option (\<lambda>l. (cout l, cin l, books l, map getActionTitle (actions l)))
     (run (main_library \<lparr>buf = ''4'' @ endl @ ''1'' @ endl, eofbit = False, failbit = False\<rparr>))
   = Some ([Clear, Clear]
           @ map Ch (''Welcome to the library!'' @ endl @ endl
                     @ ''Please choose an action:'' @ endl
                     @ ''1. Add a book'' @ endl
                     @ ''2. Search book'' @ endl
                     @ ''3. Display books'' @ endl
                     @ ''4. Exit'' @ endl
                     @ endl
                     @ ''Enter your choice: '')
           @ [Clear] @ map Ch (''Thank you for using the library!'' @ endl),
           \<lparr>buf = ''1'' @ endl, eofbit = False, failbit = False\<rparr>,
           [],
           [''Add a book'', ''Search book'', ''Display books''])"
proof -
  let ?L = "main_library \<lparr>buf = ''4'' @ endl @ ''1'' @ endl, eofbit = False, failbit = False\<rparr>"
  have len: "length (actions ?L) + 1 = 4" by simp
  have s4: "string_of_nat 4 = ''4''" by (simp add: string_of_nat.simps)
  have "good (cin ?L) \<and> buf (cin ?L) = [] @ string_of_nat (length (actions ?L) + 1) @ newline # (''1'' @ endl)
     \<and> (\<forall>x \<in> set []. isspace x) \<and> \<not> isdigit newline \<and> int (length (actions ?L) + 1) \<le> INT_MAX"
    unfolding len s4 by (simp add: good_def isdigit_def)
  with run_exit_choice [of ?L "[]" newline "''1'' @ endl"]
  have "run ?L =
         Some (print (''Thank you for using the library!'' @ endl)
                 (clearScreen ((print ''Enter your choice: '' (displayMenu (clearScreen ?L)))
                                  \<lparr>cin := (cin ?L)\<lparr>buf := ''1'' @ endl\<rparr>\<rparr>)))"
    by blast
  moreover have "[0..<3] = [0, 1, 2::nat]" by (simp add: upt_rec)
  ultimately show ?thesis
    by (simp add: displayMenu_eq string_of_nat.simps)
qed

section \<open>The callbacks of the program\<close>

lemma getValidatedString_books:
  assumes "getValidatedString prompt re w = Some r"
  shows "books (snd r) = books w"
proof (rule getValidatedString.raw_induct
    [where P = "\<lambda>p re w r. books (snd r) = books w", OF _ assms], goal_cases)
  case (1 f p re' w' r')
  show ?case
  proof (cases "regex_match (fst (istream_getline (cin w') [])) re'")
    case True
    with 1(2) show ?thesis by (auto simp: Let_def)
  next
    case False
    with 1(2) have "f p re'
       (print (''Invalid input. Please try again.'' @ endl)
          (clearScreen ((print p w')\<lparr>cin := snd (istream_getline (cin w') [])\<rparr>))) = Some r'"
      by (simp add: Let_def)
    from 1(1) [OF this] show ?thesis by simp
  qed
qed

lemma getValidatedString_books_pair:
  "getValidatedString prompt re w = Some (x, w') \<Longrightarrow> books w' = books w"
  using getValidatedString_books [of prompt re w "(x, w')"] by simp

lemma getBookFromInput_books:
  assumes "getBookFromInput w = Some (b, w')"
  shows "books w' = books w"
proof -
  from assms obtain t w1 a w2 y where
    t: "getValidatedString ''Enter title: '' (regex pattern_text)
          (print (''Enter book details: '' @ endl @ endl) w) = Some (t, w1)"
    and a: "getValidatedString ''Enter author: '' (regex pattern_text) w1 = Some (a, w2)"
    and y: "getValidatedString ''Enter year: '' (regex pattern_year) w2 = Some (y, w')"
    unfolding getBookFromInput_def by (auto split: option.splits)
  from getValidatedString_books_pair [OF t] getValidatedString_books_pair [OF a]
    getValidatedString_books_pair [OF y]
  show ?thesis by simp
qed

lemma action_add_books:
  assumes "action_add p w = Some (p', w')"
  shows "p' = p \<and> (\<exists>b. books w' = books w @ [b])"
proof -
  from assms obtain b w1 where g: "getBookFromInput w = Some (b, w1)"
    and r: "p' = p" "w' = addBook b w1"
    unfolding action_add_def by (auto split: option.splits)
  from getBookFromInput_books [OF g] r show ?thesis by (simp add: addBook_def)
qed

lemma action_search_books:
  assumes "action_search p w = Some (p', w')"
  shows "p' = p \<and> books w' = books w"
proof -
  from assms obtain t w1 where g: "getValidatedString ''Enter book title: '' (regex pattern_text)
      (clearScreen w) = Some (t, w1)"
    unfolding action_search_def by (auto split: option.splits)
  from getValidatedString_books_pair [OF g] have "books w1 = books w" by simp
  with assms g show ?thesis
    unfolding action_search_def by (auto simp: Let_def findBook_def split: option.splits)
qed

lemma action_display_books:
  assumes "action_display p w = Some (p', w')"
  shows "p' = p \<and> books w' = books w"
  using assms unfolding action_display_def by (auto simp: Let_def split: if_splits)

lemma main_actions_grow:
  assumes "a \<in> set (actions (main_library inp))" "getAction a p w = Some (p', w')"
  shows "prefix (books w) (books w')"
proof -
  from assms(1) consider "getAction a = action_add" | "getAction a = action_search"
    | "getAction a = action_display"
    by auto
  then show ?thesis
  proof cases
    case 1
    with assms(2) action_add_books [of p w p' w'] show ?thesis by auto
  next
    case 2
    with assms(2) action_search_books [of p w p' w'] show ?thesis by auto
  next
    case 3
    with assms(2) action_display_books [of p w p' w'] show ?thesis by auto
  qed
qed

text \<open>Book entry on three valid lines: scenario 2 of the specification.\<close>

lemma getBookFromInput_accept:
  assumes "good (cin w)"
    and "buf (cin w) = t @ newline # a @ newline # y @ newline # rest"
    and "t \<noteq> []" "\<forall>c \<in> set t. istext c" "a \<noteq> []" "\<forall>c \<in> set a. istext c"
    and "length y = 4" "\<forall>c \<in> set y. isdigit c"
  shows "getBookFromInput w =
           Some (Book t a y,
                 w\<lparr>cin := (cin w)\<lparr>buf := rest\<rparr>,
                   cout := cout w @ map Ch (''Enter book details: '' @ endl @ endl @ ''Enter title: ''
                                            @ ''Enter author: '' @ ''Enter year: '')\<rparr>)"
proof -
  have nt: "newline \<notin> set t" and na: "newline \<notin> set a"
    using assms(4,6) istext_not_newline by blast+
  have ny: "newline \<notin> set y"
    using assms(8) by (auto simp: isdigit_def)
  have mt: "regex_match t (regex pattern_text)" and ma: "regex_match a (regex pattern_text)"
    using assms(3-6) by (simp_all add: regex_match_def regex_pattern_text)
  have my: "regex_match y (regex pattern_year)"
    using assms(7,8) by (simp add: regex_match_def regex_pattern_year)
  let ?w0 = "print (''Enter book details: '' @ endl @ endl) w"
  let ?w1 = "?w0\<lparr>cin := (cin ?w0)\<lparr>buf := a @ newline # y @ newline # rest\<rparr>,
                  cout := cout ?w0 @ map Ch ''Enter title: ''\<rparr>"
  let ?w2 = "?w1\<lparr>cin := (cin ?w1)\<lparr>buf := y @ newline # rest\<rparr>,
                  cout := cout ?w1 @ map Ch ''Enter author: ''\<rparr>"
  let ?w3 = "?w2\<lparr>cin := (cin ?w2)\<lparr>buf := rest\<rparr>,
                  cout := cout ?w2 @ map Ch ''Enter year: ''\<rparr>"
  have 1: "getValidatedString ''Enter title: '' (regex pattern_text) ?w0 = Some (t, ?w1)"
    using assms(1,2) nt mt by (intro getValidatedString_accept) simp_all
  have 2: "getValidatedString ''Enter author: '' (regex pattern_text) ?w1 = Some (a, ?w2)"
    using assms(1) na ma by (intro getValidatedString_accept) (simp_all add: good_def)
  have 3: "getValidatedString ''Enter year: '' (regex pattern_year) ?w2 = Some (y, ?w3)"
    using assms(1) ny my by (intro getValidatedString_accept) (simp_all add: good_def)
  have "getBookFromInput w = Some (Book t a y, ?w3)"
    unfolding getBookFromInput_def by (simp only: 1 2 3 option.case prod.case)
  then show ?thesis by (simp add: print_def)
qed

text \<open>
  Claim C5. The book sequence only grows. After \<open>addBook\<close>, \<open>addAction\<close> and \<open>findBook\<close>
  the old sequence is a prefix of the new one; and with the registry that \<open>main\<close> builds,
  the same holds across every pass of the menu loop that returns and across every run
  of the loop that returns.
\<close>

theorem book_list_only_grows:
  "prefix (books lib) (books (addBook b lib))
   \<and> prefix (books lib) (books (addAction name f lib))
   \<and> prefix (books lib) (books (snd (findBook title lib)))
   \<and> (actions lib = actions (main_library inp)
       \<longrightarrow> (\<forall>fl r lib'. run_iteration running lib = Some (fl, r, lib') \<longrightarrow> prefix (books lib) (books lib'))
         \<and> (\<forall>lib'. run lib = Some lib' \<longrightarrow> prefix (books lib) (books lib')))"
proof (intro conjI impI allI)
  show "prefix (books lib) (books (addBook b lib))" by (simp add: addBook_def)
  show "prefix (books lib) (books (addAction name f lib))" by (simp add: addAction_def)
  show "prefix (books lib) (books (snd (findBook title lib)))" by (simp add: findBook_def)
next
  fix fl r lib'
  assume a: "actions lib = actions (main_library inp)"
    and it: "run_iteration running lib = Some (fl, r, lib')"
  have "\<forall>a \<in> set (actions lib). \<forall>p w p' w'. getAction a p w = Some (p', w') \<longrightarrow> prefix (books w) (books w')"
    unfolding a using main_actions_grow [of _ inp] by blast
  from run_iteration_frame [OF it this] show "prefix (books lib) (books lib')" by simp
next
  fix lib'
  assume a: "actions lib = actions (main_library inp)"
    and "run lib = Some lib'"
  then obtain r where rl: "run_loop True lib = Some (r, lib')"
    by (auto simp: run_def)
  have "\<forall>a \<in> set (actions lib). \<forall>p w p' w'. getAction a p w = Some (p', w') \<longrightarrow> prefix (books w) (books w')"
    unfolding a using main_actions_grow [of _ inp] by blast
  from run_loop_frame [OF rl this] show "prefix (books lib) (books lib')" by simp
qed

theorem book_list_only_grows_witness:
  "map_option (\<lambda>(fl, r, l). (fl, books l))
     (run_iteration True
        ((main_library \<lparr>buf = ''1'' @ endl @ ''Emma'' @ endl @ ''Jane Austen'' @ endl @ ''1815'' @ endl,
                        eofbit = False, failbit = False\<rparr>)
           \<lparr>books := [Book ''Dune'' ''Frank Herbert'' ''1965'']\<rparr>))
     = Some (Again, [Book ''Dune'' ''Frank Herbert'' ''1965'', Book ''Emma'' ''Jane Austen'' ''1815''])
   \<and> prefix [Book ''Dune'' ''Frank Herbert'' ''1965'']
        [Book ''Dune'' ''Frank Herbert'' ''1965'', Book ''Emma'' ''Jane Austen'' ''1815'']"
proof -
  let ?inp = "\<lparr>buf = ''1'' @ endl @ ''Emma'' @ endl @ ''Jane Austen'' @ endl @ ''1815'' @ endl,
                        eofbit = False, failbit = False\<rparr>"
  let ?L = "(main_library ?inp)\<lparr>books := [Book ''Dune'' ''Frank Herbert'' ''1965'']\<rparr>"
  let ?M = "clearScreen ((print ''Enter your choice: '' (displayMenu (clearScreen ?L)))
              \<lparr>cin := (cin ?L)\<lparr>buf := ''Emma'' @ endl @ ''Jane Austen'' @ endl @ ''1815'' @ endl\<rparr>\<rparr>)"
  have s1: "string_of_nat 1 = ''1''" "string_of_nat (Suc 0) = ''1''"
    by (simp_all add: string_of_nat.simps)
  have d: "run_iteration True ?L =
           (case getAction (actions ?L ! (1 - 1)) (books ?L) (world_of ?M) of
              None \<Rightarrow> None
            | Some (param, w) \<Rightarrow> Some (Again, True, with_world w ?M))"
    by (rule run_iteration_dispatch [where ws = "[]" and c = newline])
      (simp_all add: s1 good_def isdigit_def main_library_def addAction_def Library_new_def)
  have act: "getAction (actions ?L ! (1 - 1)) = action_add"
    by (simp add: main_library_def addAction_def Library_new_def)
  have g: "getBookFromInput (world_of ?M) =
           Some (Book ''Emma'' ''Jane Austen'' ''1815'',
                 (world_of ?M)\<lparr>cin := (cin (world_of ?M))\<lparr>buf := []\<rparr>,
                   cout := cout (world_of ?M) @ map Ch (''Enter book details: '' @ endl @ endl @ ''Enter title: ''
                                            @ ''Enter author: '' @ ''Enter year: '')\<rparr>)"
    by (rule getBookFromInput_accept)
      (simp_all add: good_def istext_def isdigit_def main_library_def addAction_def Library_new_def)
  have it: "run_iteration True ?L =
      Some (Again, True, with_world (addBook (Book ''Emma'' ''Jane Austen'' ''1815'')
                 ((world_of ?M)\<lparr>cin := (cin (world_of ?M))\<lparr>buf := []\<rparr>,
                   cout := cout (world_of ?M) @ map Ch (''Enter book details: '' @ endl @ endl @ ''Enter title: ''
                                            @ ''Enter author: '' @ ''Enter year: '')\<rparr>)) ?M)"
    unfolding d act action_add_def g by simp
  have "actions ?L = actions (main_library ?inp)" by simp
  with book_list_only_grows [of ?L _ _ _ _ ?inp True] it
  have "prefix (books ?L) (books (with_world (addBook (Book ''Emma'' ''Jane Austen'' ''1815'')
                 ((world_of ?M)\<lparr>cin := (cin (world_of ?M))\<lparr>buf := []\<rparr>,
                   cout := cout (world_of ?M) @ map Ch (''Enter book details: '' @ endl @ endl @ ''Enter title: ''
                                            @ ''Enter author: '' @ ''Enter year: '')\<rparr>)) ?M))"
    by blast
  then have "prefix [Book ''Dune'' ''Frank Herbert'' ''1965'']
        [Book ''Dune'' ''Frank Herbert'' ''1965'', Book ''Emma'' ''Jane Austen'' ''1815'']"
    by (simp add: addBook_def)
  moreover from it have "map_option (\<lambda>(fl, r, l). (fl, books l)) (run_iteration True ?L)
     = Some (Again, [Book ''Dune'' ''Frank Herbert'' ''1965'', Book ''Emma'' ''Jane Austen'' ''1815''])"
    by (simp add: addBook_def)
  ultimately show ?thesis by blast
qed

section \<open>The list parameter of a callback\<close>

lemma titles_list_update:
  "i < length as \<Longrightarrow>
   map getActionTitle (as[i := LibraryAction (getActionTitle (as ! i)) f]) = map getActionTitle as"
  by (simp add: map_update list_update_same_conv)

lemma world_of_with_world [simp]: "world_of (with_world w l) = w"
  by (simp add: world_of_def with_world_def)

lemma run_iteration_dispatch_Suc:
  assumes "good (cin lib)" "buf (cin lib) = ws @ string_of_nat (Suc i) @ c # rest"
    and "\<forall>x \<in> set ws. isspace x" "\<not> isdigit c" "int (Suc i) \<le> INT_MAX"
    and "i < length (actions lib)"
  shows "run_iteration running lib =
           (case getAction (actions lib ! i) (books lib)
                   (world_of (clearScreen ((print ''Enter your choice: '' (displayMenu (clearScreen lib)))
                                    \<lparr>cin := (cin lib)\<lparr>buf := rest\<rparr>\<rparr>))) of
              None \<Rightarrow> None
            | Some (param, w) \<Rightarrow>
                Some (Again, running,
                      with_world w
                        (clearScreen ((print ''Enter your choice: '' (displayMenu (clearScreen lib)))
                                    \<lparr>cin := (cin lib)\<lparr>buf := rest\<rparr>\<rparr>))))"
  using run_iteration_dispatch [of lib ws "Suc i" c rest running] assms by simp

lemma run_iteration_param_dropped:
  assumes "good (cin lib)" "buf (cin lib) = ws @ string_of_nat (Suc i) @ c # rest"
    and "\<forall>x \<in> set ws. isspace x" "\<not> isdigit c" "int (Suc i) \<le> INT_MAX"
    and "i < length (actions lib)"
  shows "map_option (\<lambda>(fl, r, l). (fl, r, world_of l))
               (run_iteration running
                  (lib\<lparr>actions := (actions lib)
                         [i := LibraryAction (getActionTitle (actions lib ! i))
                                     (\<lambda>p w. map_option (\<lambda>(p', w'). (g p', w'))
                                               (getAction (actions lib ! i) p w))]\<rparr>))
             = map_option (\<lambda>(fl, r, l). (fl, r, world_of l)) (run_iteration running lib)"
proof -
  let ?cb = "getAction (actions lib ! i)"
  let ?as = "(actions lib)[i := LibraryAction (getActionTitle (actions lib ! i))
                                     (\<lambda>p w. map_option (\<lambda>(p', w'). (g p', w')) (?cb p w))]"
  let ?lib = "lib\<lparr>actions := ?as\<rparr>"
  let ?M = "\<lambda>l. clearScreen ((print ''Enter your choice: '' (displayMenu (clearScreen l)))
                                            \<lparr>cin := (cin lib)\<lparr>buf := rest\<rparr>\<rparr>)"
  have t: "map getActionTitle ?as = map getActionTitle (actions lib)"
    using assms(6) by (rule titles_list_update)
  have "world_of (displayMenu (clearScreen ?lib)) = world_of (displayMenu (clearScreen lib))"
    using t by (intro displayMenu_titles) (simp_all add: world_of_def)
  then have w: "world_of (?M ?lib) = world_of (?M lib)"
    by (simp add: world_of_def)
  have d: "run_iteration running lib =
         (case ?cb (books lib) (world_of (?M lib)) of
            None \<Rightarrow> None
          | Some (param, w) \<Rightarrow> Some (Again, running, with_world w (?M lib)))"
    using assms by (rule run_iteration_dispatch_Suc)
  have "run_iteration running ?lib =
         (case getAction (actions ?lib ! i) (books ?lib)
                 (world_of (clearScreen ((print ''Enter your choice: '' (displayMenu (clearScreen ?lib)))
                                    \<lparr>cin := (cin ?lib)\<lparr>buf := rest\<rparr>\<rparr>))) of
            None \<Rightarrow> None
          | Some (param, w) \<Rightarrow> Some (Again, running, with_world w
                  (clearScreen ((print ''Enter your choice: '' (displayMenu (clearScreen ?lib)))
                                    \<lparr>cin := (cin ?lib)\<lparr>buf := rest\<rparr>\<rparr>))))"
    using assms by (intro run_iteration_dispatch_Suc [where ws = ws and c = c]) simp_all
  moreover have "cin ?lib = cin lib" "books ?lib = books lib" by simp_all
  moreover have "getAction (actions ?lib ! i) = (\<lambda>p w. map_option (\<lambda>(p', w'). (g p', w')) (?cb p w))"
    using assms(6) by simp
  ultimately have d': "run_iteration running ?lib =
         (case map_option (\<lambda>(p', w'). (g p', w')) (?cb (books lib) (world_of (?M lib))) of
            None \<Rightarrow> None
          | Some (param, w) \<Rightarrow> Some (Again, running, with_world w (?M ?lib)))"
    by (simp only: w)
  show ?thesis
    unfolding d d' by (cases "?cb (books lib) (world_of (?M lib))") auto
qed

text \<open>
  Claim C9. When a choice \<open>k\<close> other than Exit is dispatched, the callback at index
  \<open>k - 1\<close> is called with the current book sequence as the value of its parameter, and
  the library after the call has the books (and streams) of the world the callback
  leaves; the value the callback leaves in its parameter is dropped. So a callback that
  in addition changes its parameter in any way \<open>g\<close> gives the same books and streams,
  and a callback that does not change the books of the world (it has no captured
  \<open>Library\<close> to change them through) leaves the stored sequence as it was.
\<close>

theorem callback_parameter_is_a_copy:
  "good (cin lib) \<and> buf (cin lib) = ws @ string_of_nat k @ c # rest
     \<and> (\<forall>x \<in> set ws. isspace x) \<and> \<not> isdigit c \<and> int k \<le> INT_MAX
     \<and> 1 \<le> k \<and> k \<le> length (actions lib)
   \<longrightarrow> run_iteration running lib =
         (case getAction (actions lib ! (k - 1)) (books lib)
                 (world_of (clearScreen ((print ''Enter your choice: '' (displayMenu (clearScreen lib)))
                                            \<lparr>cin := (cin lib)\<lparr>buf := rest\<rparr>\<rparr>))) of
            None \<Rightarrow> None
          | Some (param, w) \<Rightarrow>
              Some (Again, running,
                    with_world w
                      (clearScreen ((print ''Enter your choice: '' (displayMenu (clearScreen lib)))
                                       \<lparr>cin := (cin lib)\<lparr>buf := rest\<rparr>\<rparr>))))
     \<and> (\<forall>g. map_option (\<lambda>(fl, r, l). (fl, r, world_of l))
               (run_iteration running
                  (lib\<lparr>actions := (actions lib)
                         [k - 1 := LibraryAction (getActionTitle (actions lib ! (k - 1)))
                                     (\<lambda>p w. map_option (\<lambda>(p', w'). (g p', w'))
                                               (getAction (actions lib ! (k - 1)) p w))]\<rparr>))
             = map_option (\<lambda>(fl, r, l). (fl, r, world_of l)) (run_iteration running lib))
     \<and> ((\<forall>p w p' w'. getAction (actions lib ! (k - 1)) p w = Some (p', w') \<longrightarrow> books w' = books w)
          \<longrightarrow> (\<forall>fl r l. run_iteration running lib = Some (fl, r, l) \<longrightarrow> books l = books lib))"
proof (intro impI)
  assume a: "good (cin lib) \<and> buf (cin lib) = ws @ string_of_nat k @ c # rest
     \<and> (\<forall>x \<in> set ws. isspace x) \<and> \<not> isdigit c \<and> int k \<le> INT_MAX
     \<and> 1 \<le> k \<and> k \<le> length (actions lib)"
  let ?cb = "getAction (actions lib ! (k - 1))"
  let ?M = "\<lambda>l. clearScreen ((print ''Enter your choice: '' (displayMenu (clearScreen l)))
                                            \<lparr>cin := (cin lib)\<lparr>buf := rest\<rparr>\<rparr>)"
  have d: "run_iteration running lib =
         (case ?cb (books lib) (world_of (?M lib)) of
            None \<Rightarrow> None
          | Some (param, w) \<Rightarrow> Some (Again, running, with_world w (?M lib)))"
    using a by (intro run_iteration_dispatch [where ws = ws and c = c]) simp_all
  from a obtain i where k: "k = Suc i" by (cases k) auto
  have g: "map_option (\<lambda>(fl, r, l). (fl, r, world_of l))
               (run_iteration running
                  (lib\<lparr>actions := (actions lib)
                         [k - 1 := LibraryAction (getActionTitle (actions lib ! (k - 1)))
                                     (\<lambda>p w. map_option (\<lambda>(p', w'). (g p', w')) (?cb p w))]\<rparr>))
             = map_option (\<lambda>(fl, r, l). (fl, r, world_of l)) (run_iteration running lib)" for g
    using a run_iteration_param_dropped [of lib ws i c rest running g] unfolding k by simp
  have f: "books l = books lib"
    if h: "\<forall>p w p' w'. ?cb p w = Some (p', w') \<longrightarrow> books w' = books w"
      and it: "run_iteration running lib = Some (fl, r, l)" for fl r l
  proof -
    from it d obtain p' w' where cb: "?cb (books lib) (world_of (?M lib)) = Some (p', w')"
      and l: "l = with_world w' (?M lib)"
      by (auto split: option.splits)
    from h cb have "books w' = books (world_of (?M lib))" by blast
    with l show ?thesis by simp
  qed
  from d g f show "run_iteration running lib =
         (case ?cb (books lib) (world_of (?M lib)) of
            None \<Rightarrow> None
          | Some (param, w) \<Rightarrow> Some (Again, running, with_world w (?M lib)))
     \<and> (\<forall>g. map_option (\<lambda>(fl, r, l). (fl, r, world_of l))
               (run_iteration running
                  (lib\<lparr>actions := (actions lib)
                         [k - 1 := LibraryAction (getActionTitle (actions lib ! (k - 1)))
                                     (\<lambda>p w. map_option (\<lambda>(p', w'). (g p', w')) (?cb p w))]\<rparr>))
             = map_option (\<lambda>(fl, r, l). (fl, r, world_of l)) (run_iteration running lib))
     \<and> ((\<forall>p w p' w'. ?cb p w = Some (p', w') \<longrightarrow> books w' = books w)
          \<longrightarrow> (\<forall>fl r l. run_iteration running lib = Some (fl, r, l) \<longrightarrow> books l = books lib))"
    by blast
qed


theorem callback_parameter_is_a_copy_witness:
  "map_option (\<lambda>(fl, r, l). (fl, books l))
     (run_iteration True
        \<lparr>cin = \<lparr>buf = ''1'' @ endl, eofbit = False, failbit = False\<rparr>, cout = [],
         books = [Book ''Dune'' ''Frank Herbert'' ''1965''],
         actions = [LibraryAction ''Empty the list'' (\<lambda>p w. Some ([], w))]\<rparr>)
   = Some (Again, [Book ''Dune'' ''Frank Herbert'' ''1965''])"
proof -
  let ?L = "\<lparr>cin = \<lparr>buf = ''1'' @ endl, eofbit = False, failbit = False\<rparr>, cout = [],
         books = [Book ''Dune'' ''Frank Herbert'' ''1965''],
         actions = [LibraryAction ''Empty the list'' (\<lambda>p w. Some ([], w))]\<rparr>"
  let ?M = "clearScreen ((print ''Enter your choice: '' (displayMenu (clearScreen ?L)))
                                            \<lparr>cin := (cin ?L)\<lparr>buf := []\<rparr>\<rparr>)"
  have s1: "string_of_nat 1 = ''1''" "string_of_nat (Suc 0) = ''1''"
    by (simp_all add: string_of_nat.simps)
  have "good (cin ?L) \<and> buf (cin ?L) = [] @ string_of_nat 1 @ newline # []
     \<and> (\<forall>x \<in> set []. isspace x) \<and> \<not> isdigit newline \<and> int 1 \<le> INT_MAX
     \<and> 1 \<le> (1::nat) \<and> 1 \<le> length (actions ?L)"
    by (simp add: s1 good_def isdigit_def)
  with callback_parameter_is_a_copy [of ?L "[]" 1 newline "[]" True]
  have "run_iteration True ?L =
         (case getAction (actions ?L ! (1 - 1)) (books ?L) (world_of ?M) of
            None \<Rightarrow> None
          | Some (param, w) \<Rightarrow> Some (Again, True, with_world w ?M))"
    by blast
  then show ?thesis by simp
qed

end
